(* ===== verification/Irc_Prelude.thy ===== *)
theory Irc_Prelude
  imports
    Main
    "HOL-Library.Word"
    "HOL-Library.Char_ord"
    "HOL-Library.List_Lexorder"
begin

text \<open>
  Shared vocabulary of the development: the theorem collections the components add to, the
  names of the machine types, the character constants the code compares against, and the
  generic lemmas on lists, options and loops that more than one component uses.
\<close>

unbundle bit_operations_syntax

named_theorems accessor_defs "unfolding the one-line getters, setters and tests"
named_theorems skel_simps "operations that leave the protocol state of the server alone"
named_theorems find_simps "what a lookup returns after an operation"

section \<open>Types and constants\<close>

text \<open>
  A file descriptor is the value the kernel hands out; the code only compares it (and orders
  it as a map key), so it is an \<open>int\<close>. \<open>short\<close> is the type of \<open>pollfd.events\<close>,
  \<open>size\<close> is \<open>std::size_t\<close> where a computed value is stored in it.
\<close>

type_synonym descriptor = int
type_synonym short_int = "16 word"
type_synonym size_word = "64 word"

abbreviation newline_char :: char where
  "newline_char \<equiv> CHR 0x0A"

abbreviation return_char :: char where
  "return_char \<equiv> CHR 0x0D"

abbreviation tab_char :: char where
  "tab_char \<equiv> CHR 0x09"

abbreviation space_char :: char where
  "space_char \<equiv> CHR '' ''"

abbreviation crlf :: string where
  "crlf \<equiv> [return_char, newline_char]"

section \<open>Substrings by position\<close>

text \<open>\<open>std::string::substr(pos, n)\<close> for \<open>pos \<le> size()\<close>.\<close>

definition substr :: "string \<Rightarrow> nat \<Rightarrow> nat \<Rightarrow> string" where
  "substr s p n = take n (drop p s)"

lemma substr_0: "substr s 0 n = take n s"
  by (simp add: substr_def)

lemma set_substr: "set (substr s p n) \<subseteq> set s"
  by (auto simp: substr_def dest: in_set_takeD in_set_dropD)

text \<open>\<open>operator[]\<close> of a const \<open>std::string\<close>: the null character at \<open>size()\<close>.\<close>

definition char_at :: "string \<Rightarrow> nat \<Rightarrow> char" where
  "char_at s i = (if i < length s then s ! i else CHR 0x00)"

section \<open>Lists, options and loops\<close>

lemma takeWhile_snoc_stop:
  "\<lbrakk>\<forall>x\<in>set xs. P x; \<not> P y\<rbrakk> \<Longrightarrow> takeWhile P (xs @ y # ys) = xs"
  by (induction xs) auto

lemma dropWhile_snoc_stop:
  "\<lbrakk>\<forall>x\<in>set xs. P x; \<not> P y\<rbrakk> \<Longrightarrow> dropWhile P (xs @ y # ys) = y # ys"
  by (induction xs) auto

lemma fold_invariant_pred:
  "\<lbrakk>I s; \<And>x s. \<lbrakk>x \<in> set xs; I s\<rbrakk> \<Longrightarrow> I (f x s)\<rbrakk> \<Longrightarrow> I (fold f xs s)"
  by (induction xs arbitrary: s) auto

lemma fold_same_image:
  "(\<And>x s. g (f x s) = g s) \<Longrightarrow> g (fold f xs s) = g s"
  by (induction xs arbitrary: s) auto

lemma distinct_map_fst_inj:
  "\<lbrakk>distinct (map f xs); x \<in> set xs; y \<in> set xs; f x = f y\<rbrakk> \<Longrightarrow> x = y"
  by (meson distinct_map inj_onD)

end
