(* ===== verification/Irc_Utils.thy ===== *)
theory Irc_Utils
  imports Irc_Prelude
begin

text \<open>
  \<open>srcs/Utils.cpp\<close>: the RFC 1459 case mapping under which nicknames and channel names are
  compared, and the part of \<open>std::istringstream\<close> that \<open>main.cpp\<close> and
  \<open>ModeApply.cpp\<close> read numbers with.
\<close>

section \<open>Case mapping\<close>

text \<open>The body of the loop of \<open>ircCaseFold\<close>; \<open>c - 'A' + 'a'\<close> is computed in \<open>int\<close>.\<close>

definition fold_char :: "char \<Rightarrow> char" where
  "fold_char c =
     (if CHR ''A'' \<le> c \<and> c \<le> CHR ''Z'' then char_of (of_char c - 65 + 97 :: int)
      else if c = CHR ''['' then CHR ''{''
      else if c = CHR '']'' then CHR ''}''
      else if c = CHR 0x5C then CHR ''|''
      else if c = CHR ''~'' then CHR ''^''
      else c)"

definition ircCaseFold :: "string \<Rightarrow> string" where
  "ircCaseFold value = map fold_char value"

definition ircEquals :: "string \<Rightarrow> string \<Rightarrow> bool" where
  "ircEquals left right \<longleftrightarrow> ircCaseFold left = ircCaseFold right"

lemma length_ircCaseFold [simp]: "length (ircCaseFold s) = length s"
  by (simp add: ircCaseFold_def)

lemma ircCaseFold_eq_Nil [simp]: "ircCaseFold s = [] \<longleftrightarrow> s = []"
  by (simp add: ircCaseFold_def)

lemma ircCaseFold_append: "ircCaseFold (s @ t) = ircCaseFold s @ ircCaseFold t"
  by (simp add: ircCaseFold_def)

lemma char_le_of_char: "c \<le> d \<longleftrightarrow> (of_char c :: int) \<le> of_char d"
proof -
  have to_int: "(of_char x :: int) = int (of_char x)" for x :: char
    unfolding of_nat_of_char ..
  show ?thesis
    by (simp only: less_eq_char_def to_int of_nat_le_iff)
qed

lemma fold_char_upper:
  assumes "CHR ''A'' \<le> c" "c \<le> CHR ''Z''"
  shows "(of_char (fold_char c) :: int) = of_char c + 32"
proof -
  have "65 \<le> (of_char c :: int)" "(of_char c :: int) \<le> 90"
    using assms by (simp_all add: char_le_of_char)
  then show ?thesis
    using assms by (simp add: fold_char_def)
qed

lemma fold_char_cases:
  "\<lbrakk>\<not> (CHR ''A'' \<le> c \<and> c \<le> CHR ''Z'')\<rbrakk> \<Longrightarrow> fold_char c \<in> {c, CHR ''{'', CHR ''}'', CHR ''|'', CHR ''^''}"
  by (auto simp: fold_char_def)

lemma fold_char_idem [simp]: "fold_char (fold_char c) = fold_char c"
proof (cases "CHR ''A'' \<le> c \<and> c \<le> CHR ''Z''")
  case True
  then have code: "(of_char (fold_char c) :: int) = of_char c + 32"
    by (simp add: fold_char_upper)
  have range: "97 \<le> (of_char (fold_char c) :: int)" "(of_char (fold_char c) :: int) \<le> 122"
    using True by (simp_all add: code char_le_of_char)
  have "fold_char c \<notin> {CHR ''['', CHR '']'', CHR 0x5C, CHR ''~''}"
    using range by auto
  moreover have "\<not> fold_char c \<le> CHR ''Z''"
    using range by (simp add: char_le_of_char)
  ultimately show ?thesis
    by (simp add: fold_char_def [of "fold_char c"])
next
  case False
  then show ?thesis
    by (auto simp: fold_char_def char_le_of_char)
qed

lemma ircCaseFold_idem [simp]: "ircCaseFold (ircCaseFold s) = ircCaseFold s"
  by (simp add: ircCaseFold_def)

lemma ircEquals_equiv: "equivp ircEquals"
  by (rule equivpI) (auto simp: reflp_def symp_def transp_def ircEquals_def)

lemma fold_char_channel [simp]:
  "fold_char c = CHR ''#'' \<longleftrightarrow> c = CHR ''#''" "fold_char c = CHR ''&'' \<longleftrightarrow> c = CHR ''&''"
proof -
  have up: "CHR ''A'' \<le> c \<Longrightarrow> c \<le> CHR ''Z'' \<Longrightarrow> 97 \<le> (of_char (fold_char c) :: int)"
    by (simp add: fold_char_upper) (simp add: char_le_of_char)
  show "fold_char c = CHR ''#'' \<longleftrightarrow> c = CHR ''#''" "fold_char c = CHR ''&'' \<longleftrightarrow> c = CHR ''&''"
    using up fold_char_cases [of c]
    by (cases "CHR ''A'' \<le> c \<and> c \<le> CHR ''Z''"; auto simp: char_le_of_char fold_char_def)+
qed

section \<open>Reading numbers from a string stream\<close>

text \<open>\<open>std::isspace\<close> in the C locale.\<close>

definition is_space :: "char \<Rightarrow> bool" where
  "is_space c \<longleftrightarrow> c \<in> {space_char, tab_char, newline_char, CHR 0x0B, CHR 0x0C, return_char}"

definition is_digit :: "char \<Rightarrow> bool" where
  "is_digit c \<longleftrightarrow> CHR ''0'' \<le> c \<and> c \<le> CHR ''9''"

definition digits_value :: "string \<Rightarrow> nat" where
  "digits_value ds = foldl (\<lambda>n c. 10 * n + (of_char c - 48)) 0 ds"

text \<open>
  \<open>stream >> value\<close> for an unsigned 64-bit \<open>value\<close>: white space is skipped, a sign is
  accepted, digits are accumulated, a magnitude out of range or no digit sets
  \<open>failbit\<close> (\<open>None\<close>), and a minus sign negates modulo \<open>2 ^ 64\<close>, as
  \<open>strtoull\<close> does.
\<close>

definition extract_unsigned :: "string \<Rightarrow> (size_word \<times> string) option" where
  "extract_unsigned text =
     (let s = dropWhile is_space text;
          (negative, body) =
            (case s of [] \<Rightarrow> (False, s)
             | c # r \<Rightarrow> if c = CHR ''-'' then (True, r) else if c = CHR ''+'' then (False, r) else (False, s));
          ds = takeWhile is_digit body
      in if ds = [] then None
         else if 2 ^ 64 \<le> digits_value ds then None
         else Some (if negative then - of_nat (digits_value ds) else of_nat (digits_value ds),
                    dropWhile is_digit body))"

text \<open>\<open>stream >> c\<close> for a \<open>char\<close>.\<close>

definition extract_char :: "string \<Rightarrow> (char \<times> string) option" where
  "extract_char s = (case dropWhile is_space s of [] \<Rightarrow> None | c # r \<Rightarrow> Some (c, r))"

lemma extract_char_None_iff: "extract_char s = None \<longleftrightarrow> (\<forall>c\<in>set s. is_space c)"
  by (cases "dropWhile is_space s") (auto simp: extract_char_def dest: dropWhile_eq_Nil_conv [THEN iffD1]
      simp flip: dropWhile_eq_Nil_conv)

lemma is_digit_not_space: "is_digit c \<Longrightarrow> \<not> is_space c"
  by (auto simp: is_digit_def is_space_def char_le_of_char)

lemma is_digit_not_sign: "is_digit c \<Longrightarrow> c \<noteq> CHR ''-'' \<and> c \<noteq> CHR ''+''"
  by (auto simp: is_digit_def char_le_of_char)

lemma extract_unsigned_digits:
  assumes "c # t = ds @ rest" "\<forall>d\<in>set ds. is_digit d" "ds \<noteq> []"
    and "\<And>x r. rest = x # r \<Longrightarrow> \<not> is_digit x"
  shows "extract_unsigned (c # t) =
    (if 2 ^ 64 \<le> digits_value ds then None else Some (of_nat (digits_value ds), rest))"
proof -
  have c: "is_digit c"
    using assms(1-3) by (cases ds) auto
  have "takeWhile is_digit (c # t) = ds" "dropWhile is_digit (c # t) = rest"
    using assms by (cases rest; simp add: takeWhile_append dropWhile_append)+
  moreover have "dropWhile is_space (c # t) = c # t"
    using c by (simp add: is_digit_not_space)
  ultimately show ?thesis
    using c is_digit_not_sign [OF c] assms(3) by (simp add: extract_unsigned_def)
qed

text \<open>Decimal notation, the inverse of \<open>digits_value\<close>; used to state round trips only.\<close>

fun decimal :: "nat \<Rightarrow> string" where
  "decimal n = (if n < 10 then [char_of (48 + n)] else decimal (n div 10) @ [char_of (48 + n mod 10)])"

declare decimal.simps [simp del]

lemma decimal_neq_Nil [simp]: "decimal n \<noteq> []"
  by (subst decimal.simps) simp

lemma digit_char: "d < 10 \<Longrightarrow> is_digit (char_of (48 + d :: nat)) \<and> of_char (char_of (48 + d :: nat)) = 48 + d"
proof -
  assume "d < 10"
  then have "(of_char (char_of (48 + d)) :: nat) = 48 + d"
    by simp
  moreover from this have "(of_char (char_of (48 + d)) :: int) = 48 + int d"
    by (metis of_nat_add of_nat_numeral of_nat_of_char)
  ultimately show ?thesis
    using \<open>d < 10\<close> by (simp add: is_digit_def char_le_of_char)
qed

lemma decimal_digits: "\<forall>d\<in>set (decimal n). is_digit d"
proof (induction n rule: decimal.induct)
  case (1 n)
  then show ?case
    by (subst decimal.simps) (auto simp: digit_char)
qed

lemma digits_value_snoc: "digits_value (ds @ [c]) = 10 * digits_value ds + (of_char c - 48)"
  by (simp add: digits_value_def)

lemma digits_value_decimal: "digits_value (decimal n) = n"
proof (induction n rule: decimal.induct)
  case (1 n)
  show ?case
  proof (cases "n < 10")
    case True
    then show ?thesis
      by (subst decimal.simps) (simp add: digits_value_def digit_char)
  next
    case False
    then have "digits_value (decimal n) = 10 * digits_value (decimal (n div 10)) + n mod 10"
      by (subst decimal.simps) (simp add: digits_value_snoc digit_char)
    with 1 False show ?thesis by simp
  qed
qed

lemma extract_decimal:
  "extract_unsigned (decimal n) = (if 2 ^ 64 \<le> n then None else Some (of_nat n, []))"
proof -
  obtain c t where ct: "decimal n = c # t"
    by (cases "decimal n") auto
  have "extract_unsigned (c # t) =
      (if 2 ^ 64 \<le> digits_value (decimal n) then None else Some (of_nat (digits_value (decimal n)), []))"
    by (rule extract_unsigned_digits) (use ct decimal_digits [of n] in auto)
  then show ?thesis
    by (simp add: digits_value_decimal flip: ct)
qed

section \<open>Properties\<close>

text \<open>The upper case letters of RFC 1459 and, in the same order, their lower case forms.\<close>

definition upper_letters :: string where
  "upper_letters = ''ABCDEFGHIJKLMNOPQRSTUVWXYZ[]~'' @ [CHR 0x5C]"

definition lower_letters :: string where
  "lower_letters = ''abcdefghijklmnopqrstuvwxyz{}^|''"

definition same_letter :: "char \<Rightarrow> char \<Rightarrow> bool" where
  "same_letter c d \<longleftrightarrow>
     c = d \<or> (c, d) \<in> set (zip upper_letters lower_letters) \<or> (d, c) \<in> set (zip upper_letters lower_letters)"

lemma capital_letters:
  assumes "CHR ''A'' \<le> c" "c \<le> CHR ''Z''"
  shows "c \<in> set ''ABCDEFGHIJKLMNOPQRSTUVWXYZ''"
proof -
  have "int (of_char c) = of_char c"
    by (rule of_nat_of_char)
  moreover have "65 \<le> (of_char c :: int)" "(of_char c :: int) \<le> 90"
    using assms by (simp_all add: char_le_of_char)
  ultimately have "65 \<le> (of_char c :: nat)" "(of_char c :: nat) < 91"
    by linarith+
  then have "char_of (of_char c :: nat) \<in> set (map char_of [65..<91 :: nat])"
    unfolding set_map by (intro imageI) (simp only: set_upt atLeastLessThan_iff)
  also have "map char_of [65..<91 :: nat] = ''ABCDEFGHIJKLMNOPQRSTUVWXYZ''"
    by code_simp
  finally show ?thesis
    by (simp only: char_of_char)
qed

lemma fold_upper_letters: "map fold_char upper_letters = lower_letters"
  by code_simp

lemma fold_other: "c \<notin> set upper_letters \<Longrightarrow> fold_char c = c"
  using capital_letters [of c] by (auto simp: upper_letters_def fold_char_def)

lemma letters_apart: "set lower_letters \<inter> set upper_letters = {}"
  by (simp add: upper_letters_def lower_letters_def)

lemma fold_lower: "fold_char c \<notin> set upper_letters"
proof (cases "c \<in> set upper_letters")
  case True
  then have "fold_char c \<in> set lower_letters"
    by (simp flip: fold_upper_letters)
  then show ?thesis
    using letters_apart by blast
next
  case False
  then show ?thesis
    by (simp add: fold_other)
qed

lemma letter_pairs:
  "(c, d) \<in> set (zip upper_letters lower_letters) \<longleftrightarrow> c \<in> set upper_letters \<and> d = fold_char c"
  by (auto simp: fold_upper_letters [symmetric] in_set_zip in_set_conv_nth)

lemma fold_pairs_inj: "\<lbrakk>c \<in> set upper_letters; d \<in> set upper_letters; fold_char c = fold_char d\<rbrakk> \<Longrightarrow> c = d"
proof -
  have "distinct (map fold_char upper_letters)"
    unfolding fold_upper_letters by (simp add: lower_letters_def)
  then show "\<lbrakk>c \<in> set upper_letters; d \<in> set upper_letters; fold_char c = fold_char d\<rbrakk> \<Longrightarrow> c = d"
    by (simp add: distinct_map inj_on_def)
qed

lemma same_letter_fold: "same_letter c d \<longleftrightarrow> fold_char c = fold_char d"
  unfolding same_letter_def letter_pairs
  using fold_pairs_inj [of c d] fold_other [of c] fold_other [of d] fold_lower by (metis fold_char_idem)

text \<open>C40: Names are compared as RFC 1459 asks: two strings are equal for the server exactly if they
  agree letter by letter up to the pairs of that standard (the 26 letters, and the four pairs of
  brackets, backslash and tilde), and a folded string, which is the key of the nickname index and
  of the channel table, has no upper case letter of the standard left.\<close>

theorem case_folding:
  "(ircEquals s t \<longleftrightarrow> list_all2 same_letter s t) \<and> list_all (\<lambda>c. c \<notin> set upper_letters) (ircCaseFold s)"
  by (simp add: ircEquals_def ircCaseFold_def list_all_iff fold_lower list_all2_conv_all_nth
      same_letter_fold list_eq_iff_nth_eq) auto

end
