(* ===== verification/Irc_Client.thy ===== *)
theory Irc_Client
  imports Irc_Utils
begin

text \<open>
  \<open>includes/Client.hpp\<close>, \<open>srcs/Client.cpp\<close> and \<open>srcs/ClientRegister.cpp\<close>: one
  connected client with its registration state and its two byte buffers. Buffers are byte
  strings; \<open>popLine\<close> returns \<open>None\<close> where the code returns false, and the line with
  the client left behind where it returns true.
\<close>

section \<open>State\<close>

record client =
  c_nickname :: string
  c_username :: string
  c_realname :: string
  c_passwordAccepted :: bool
  c_hasUser :: bool
  c_registered :: bool
  c_fd :: descriptor
  c_outputBuffer :: string
  c_inputBuffer :: string
  c_disconnectRequested :: bool
  c_disconnectReason :: string

text \<open>The constructor \<open>Client(fd)\<close>.\<close>

definition new_client :: "descriptor \<Rightarrow> client" where
  "new_client fd =
     \<lparr>c_nickname = [], c_username = [], c_realname = [],
      c_passwordAccepted = False, c_hasUser = False, c_registered = False,
      c_fd = fd, c_outputBuffer = [], c_inputBuffer = [],
      c_disconnectRequested = False, c_disconnectReason = []\<rparr>"

definition getFd :: "client \<Rightarrow> descriptor" where
  [accessor_defs]: "getFd c = c_fd c"

definition requestDisconnect :: "string \<Rightarrow> client \<Rightarrow> client" where
  [accessor_defs]: "requestDisconnect reason c = c\<lparr>c_disconnectReason := reason, c_disconnectRequested := True\<rparr>"

definition isDisconnectRequested :: "client \<Rightarrow> bool" where
  [accessor_defs]: "isDisconnectRequested c = c_disconnectRequested c"

definition getDisconnectReason :: "client \<Rightarrow> string" where
  [accessor_defs]: "getDisconnectReason c = c_disconnectReason c"

text \<open>The size of a client is what is left to read of it; the read loop makes it smaller.\<close>

instantiation client_ext :: (type) size
begin

definition size_client_ext :: "'a client_ext \<Rightarrow> nat" where
  "size_client_ext c = length (c_inputBuffer c)"

instance ..

end

section \<open>Buffers\<close>

definition appendOutput :: "string \<Rightarrow> client \<Rightarrow> client" where
  [accessor_defs]: "appendOutput data c = c\<lparr>c_outputBuffer := c_outputBuffer c @ data\<rparr>"

definition hasOutput :: "client \<Rightarrow> bool" where
  [accessor_defs]: "hasOutput c \<longleftrightarrow> c_outputBuffer c \<noteq> []"

definition getOutputData :: "client \<Rightarrow> string" where
  [accessor_defs]: "getOutputData c = c_outputBuffer c"

definition getOutputSize :: "client \<Rightarrow> nat" where
  [accessor_defs]: "getOutputSize c = length (c_outputBuffer c)"

definition consumeOutput :: "nat \<Rightarrow> client \<Rightarrow> client" where
  "consumeOutput n c =
     (if length (c_outputBuffer c) \<le> n then c\<lparr>c_outputBuffer := []\<rparr>
      else c\<lparr>c_outputBuffer := drop n (c_outputBuffer c)\<rparr>)"

definition appendInput :: "string \<Rightarrow> client \<Rightarrow> client" where
  [accessor_defs]: "appendInput data c = c\<lparr>c_inputBuffer := c_inputBuffer c @ data\<rparr>"

definition getInputSize :: "client \<Rightarrow> nat" where
  [accessor_defs]: "getInputSize c = length (c_inputBuffer c)"

text \<open>\<open>std::string::find(char)\<close>, with \<open>npos\<close> as \<open>None\<close>.\<close>

fun find_char :: "char \<Rightarrow> string \<Rightarrow> nat option" where
  "find_char x [] = None"
| "find_char x (c # cs) = (if c = x then Some 0 else map_option Suc (find_char x cs))"

text \<open>Lines 92 to 96: one trailing carriage return is dropped.\<close>

definition strip_return :: "string \<Rightarrow> string" where
  "strip_return line =
     (if line \<noteq> [] \<and> line ! (length line - 1) = return_char
      then take (length line - 1) line else line)"

definition popLine :: "client \<Rightarrow> (string \<times> client) option" where
  "popLine c =
     (case find_char newline_char (c_inputBuffer c) of
        None \<Rightarrow> None
      | Some newline \<Rightarrow>
          Some (strip_return (substr (c_inputBuffer c) 0 newline),
                c\<lparr>c_inputBuffer := drop (newline + 1) (c_inputBuffer c)\<rparr>))"

section \<open>Registration\<close>

definition hasNickname :: "client \<Rightarrow> bool" where
  [accessor_defs]: "hasNickname c \<longleftrightarrow> c_nickname c \<noteq> []"

definition isRegistered :: "client \<Rightarrow> bool" where
  [accessor_defs]: "isRegistered c = c_registered c"

definition getNickname :: "client \<Rightarrow> string" where
  [accessor_defs]: "getNickname c = c_nickname c"

definition getUsername :: "client \<Rightarrow> string" where
  [accessor_defs]: "getUsername c = c_username c"

definition getRealname :: "client \<Rightarrow> string" where
  [accessor_defs]: "getRealname c = c_realname c"

definition setPasswordAccepted :: "client \<Rightarrow> client" where
  [accessor_defs]: "setPasswordAccepted c = c\<lparr>c_passwordAccepted := True\<rparr>"

definition setNickname :: "string \<Rightarrow> client \<Rightarrow> client" where
  [accessor_defs]: "setNickname nickname c = c\<lparr>c_nickname := nickname\<rparr>"

definition setUser :: "string \<Rightarrow> string \<Rightarrow> client \<Rightarrow> client" where
  [accessor_defs]: "setUser username realname c =
     c\<lparr>c_username := username, c_realname := realname, c_hasUser := True\<rparr>"

definition setRegistered :: "bool \<Rightarrow> client \<Rightarrow> client" where
  [accessor_defs]: "setRegistered r c = c\<lparr>c_registered := r\<rparr>"

definition isRegistrationReady :: "client \<Rightarrow> bool" where
  [accessor_defs]: "isRegistrationReady c \<longleftrightarrow> c_passwordAccepted c \<and> c_nickname c \<noteq> [] \<and> c_hasUser c"

definition getPrefix :: "client \<Rightarrow> string" where
  "getPrefix c = c_nickname c @ ''!'' @ c_username c @ ''@localhost''"

section \<open>Line framing\<close>

lemma find_char_None_iff: "find_char x s = None \<longleftrightarrow> x \<notin> set s"
  by (induction s) auto

lemma find_char_Some:
  "find_char x s = Some n \<Longrightarrow> n < length s \<and> s ! n = x \<and> x \<notin> set (take n s)"
  by (induction s arbitrary: n) (auto split: if_splits)

lemma find_char_first: "x \<notin> set s \<Longrightarrow> find_char x (s @ x # t) = Some (length s)"
  by (induction s) auto

lemma strip_return_subset: "set (strip_return s) \<subseteq> set s"
  by (auto simp: strip_return_def dest: in_set_takeD)

lemma strip_return_snoc [simp]: "strip_return (s @ [return_char]) = s"
  by (simp add: strip_return_def nth_append)

lemma strip_return_last: "s = [] \<or> last s \<noteq> return_char \<Longrightarrow> strip_return s = s"
  by (auto simp: strip_return_def last_conv_nth)

lemma popLine_None_iff: "popLine c = None \<longleftrightarrow> newline_char \<notin> set (c_inputBuffer c)"
  by (auto simp: popLine_def simp flip: find_char_None_iff split: option.split)

lemma popLine_Some:
  assumes "popLine c = Some (line, c')"
  shows "\<exists>raw rest. c_inputBuffer c = raw @ newline_char # rest \<and> newline_char \<notin> set raw
    \<and> line = strip_return raw \<and> c' = c\<lparr>c_inputBuffer := rest\<rparr>"
proof -
  obtain n where n: "find_char newline_char (c_inputBuffer c) = Some n"
    and line: "line = strip_return (take n (c_inputBuffer c))"
    and c': "c' = c\<lparr>c_inputBuffer := drop (Suc n) (c_inputBuffer c)\<rparr>"
    using assms by (auto simp: popLine_def substr_0 split: option.splits)
  have "c_inputBuffer c = take n (c_inputBuffer c) @ newline_char # drop (Suc n) (c_inputBuffer c)"
    using find_char_Some [OF n] by (metis id_take_nth_drop)
  with find_char_Some [OF n] line c' show ?thesis by blast
qed

lemma popLine_first:
  "newline_char \<notin> set raw \<Longrightarrow> c_inputBuffer c = raw @ newline_char # rest \<Longrightarrow>
   popLine c = Some (strip_return raw, c\<lparr>c_inputBuffer := rest\<rparr>)"
  by (simp add: popLine_def find_char_first substr_0)

lemma popLine_shorter: "popLine c = Some (line, c') \<Longrightarrow> size c' < size c"
  by (drule popLine_Some) (auto simp: size_client_ext_def)

lemma popLine_no_newline: "popLine c = Some (line, c') \<Longrightarrow> newline_char \<notin> set line"
  using strip_return_subset by (fastforce dest: popLine_Some)

text \<open>
  All the lines of a buffer, as the \<open>while (popLine(line))\<close> loop of
  \<open>receiveFromClient\<close> takes them, with what stays in the buffer.
\<close>

function pop_all :: "client \<Rightarrow> string list \<times> client" where
  "pop_all c =
     (case popLine c of
        None \<Rightarrow> ([], c)
      | Some (line, c') \<Rightarrow> let (ls, c'') = pop_all c' in (line # ls, c''))"
  by pat_completeness auto
termination
  by (relation "measure size") (auto dest: popLine_shorter)

declare pop_all.simps [simp del]

lemma pop_all_None: "popLine c = None \<Longrightarrow> pop_all c = ([], c)"
  by (simp add: pop_all.simps)

lemma pop_all_Some:
  "popLine c = Some (line, c') \<Longrightarrow> pop_all c = (line # fst (pop_all c'), snd (pop_all c'))"
  by (subst pop_all.simps) (simp split: prod.split)

lemma pop_all_induct [case_names None Some]:
  assumes "\<And>c. popLine c = None \<Longrightarrow> P c"
    and "\<And>c line c'. \<lbrakk>popLine c = Some (line, c'); P c'\<rbrakk> \<Longrightarrow> P c"
  shows "P c"
proof (induction c rule: pop_all.induct)
  case (1 c)
  then show ?case
    using assms by (cases "popLine c") auto
qed

lemma pop_all_rest: "newline_char \<notin> set (c_inputBuffer (snd (pop_all c)))"
  by (induction c rule: pop_all_induct) (simp_all add: pop_all_None pop_all_Some popLine_None_iff)

lemma popLine_frame: "popLine c = Some (line, c') \<Longrightarrow> c' = c\<lparr>c_inputBuffer := c_inputBuffer c'\<rparr>"
  by (drule popLine_Some) auto

lemma pop_all_frame: "snd (pop_all c) = c\<lparr>c_inputBuffer := c_inputBuffer (snd (pop_all c))\<rparr>"
proof (induction c rule: pop_all_induct)
  case (Some c line c')
  then show ?case
    using popLine_frame [OF Some(1)] by (simp add: pop_all_Some) (metis client.update_convs(9) client.surjective)
qed (simp add: pop_all_None)

lemma popLine_more_input:
  assumes "popLine c = Some (line, c')"
  shows "popLine (appendInput d c) = Some (line, appendInput d c')"
proof -
  obtain raw rest where "c_inputBuffer c = raw @ newline_char # rest" "newline_char \<notin> set raw"
    "line = strip_return raw" "c' = c\<lparr>c_inputBuffer := rest\<rparr>"
    using popLine_Some [OF assms] by blast
  then show ?thesis
    by (subst popLine_first [of raw _ "rest @ d"]) (simp_all add: appendInput_def)
qed

text \<open>Framing is independent of how the byte stream is cut into reads.\<close>

lemma pop_all_append:
  "pop_all (appendInput d c) =
     (fst (pop_all c) @ fst (pop_all (appendInput d (snd (pop_all c)))),
      snd (pop_all (appendInput d (snd (pop_all c)))))"
  by (induction c rule: pop_all_induct)
    (simp_all add: pop_all_None pop_all_Some popLine_more_input)

section \<open>Properties\<close>

text \<open>The raw lines of a buffer.\<close>

lemma pop_all_raw:
  "\<exists>raws. c_inputBuffer c = concat (map (\<lambda>r. r @ [newline_char]) raws) @ c_inputBuffer (snd (pop_all c))
    \<and> fst (pop_all c) = map strip_return raws \<and> list_all (\<lambda>r. newline_char \<notin> set r) raws"
proof (induction c rule: pop_all_induct)
  case (None c)
  then show ?case
    by (intro exI [of _ "[]"]) (simp add: pop_all_None)
next
  case (Some c line c')
  then obtain raws where raws: "c_inputBuffer c' = concat (map (\<lambda>r. r @ [newline_char]) raws) @ c_inputBuffer (snd (pop_all c'))"
    "fst (pop_all c') = map strip_return raws" "list_all (\<lambda>r. newline_char \<notin> set r) raws"
    by blast
  obtain raw rest where "c_inputBuffer c = raw @ newline_char # rest" "newline_char \<notin> set raw"
    "line = strip_return raw" "c' = c\<lparr>c_inputBuffer := rest\<rparr>"
    using popLine_Some [OF Some(1)] by blast
  with raws show ?case
    by (intro exI [of _ "raw # raws"]) (simp add: pop_all_Some [OF Some(1)])
qed

lemma strip_return_eq: "strip_return r = (if r \<noteq> [] \<and> last r = return_char then butlast r else r)"
  by (auto simp: strip_return_def last_conv_nth butlast_conv_take)

text \<open>C23: Line framing: taking lines until there is none left splits the input buffer into its
  newline-terminated lines, in order, each without its newline and without one carriage return
  before it (the last character of the line, if it is one), and leaves exactly the unterminated
  rest.\<close>

theorem framing:
  "\<exists>raws. c_inputBuffer c = concat (map (\<lambda>r. r @ [newline_char]) raws) @ c_inputBuffer (snd (pop_all c))
    \<and> fst (pop_all c) = map (\<lambda>r. if r \<noteq> [] \<and> last r = return_char then butlast r else r) raws
    \<and> list_all (\<lambda>r. newline_char \<notin> set r) raws
    \<and> newline_char \<notin> set (c_inputBuffer (snd (pop_all c)))
    \<and> snd (pop_all c) = c\<lparr>c_inputBuffer := c_inputBuffer (snd (pop_all c))\<rparr>"
  unfolding strip_return_eq [symmetric]
  using pop_all_raw [of c] pop_all_rest [of c] pop_all_frame [of c] by blast

text \<open>C24: Framing does not depend on how TCP cuts the byte stream: taking all lines after each of two
  reads gives the same lines, and the same rest, as taking them once after both.\<close>

theorem framing_chunks:
  "fst (pop_all (appendInput (d @ e) c)) =
     fst (pop_all (appendInput d c)) @ fst (pop_all (appendInput e (snd (pop_all (appendInput d c)))))
   \<and> snd (pop_all (appendInput (d @ e) c)) = snd (pop_all (appendInput e (snd (pop_all (appendInput d c)))))"
proof -
  have "appendInput (d @ e) c = appendInput e (appendInput d c)"
    by (simp add: appendInput_def)
  then show ?thesis
    using pop_all_append [of e "appendInput d c"] by simp
qed

end
