(* ===== verification/Ordered_Map.thy ===== *)
theory Ordered_Map
  imports Irc_Prelude
begin

text \<open>
  The ordered containers the program uses, \<open>std::map\<close> and \<open>std::set\<close>: a list of
  key/value pairs in strictly increasing key order, so that a loop over the list visits the
  entries in the order of the C++ iterators. The locale \<open>keyed_store\<close> states the laws
  the components rely on; it is interpreted on the operations below.
\<close>

section \<open>Operations\<close>

type_synonym ('k, 'v) omap = "('k \<times> 'v) list"

text \<open>\<open>find(k)\<close>, with \<open>end()\<close> as \<open>None\<close>.\<close>

fun om_find :: "('k, 'v) omap \<Rightarrow> 'k \<Rightarrow> 'v option" where
  "om_find [] k = None"
| "om_find ((a, b) # m) k = (if k = a then Some b else om_find m k)"

text \<open>\<open>m[k] = v\<close>: overwrites an existing entry.\<close>

fun om_put :: "'k::linorder \<Rightarrow> 'v \<Rightarrow> ('k, 'v) omap \<Rightarrow> ('k, 'v) omap" where
  "om_put k v [] = [(k, v)]"
| "om_put k v ((a, b) # m) =
     (if k < a then (k, v) # (a, b) # m
      else if k = a then (k, v) # m
      else (a, b) # om_put k v m)"

text \<open>\<open>insert(make_pair(k, v))\<close>: keeps an existing entry.\<close>

definition om_insert :: "'k::linorder \<Rightarrow> 'v \<Rightarrow> ('k, 'v) omap \<Rightarrow> ('k, 'v) omap" where
  "om_insert k v m = (case om_find m k of None \<Rightarrow> om_put k v m | Some _ \<Rightarrow> m)"

text \<open>\<open>erase(k)\<close>.\<close>

definition om_erase :: "'k \<Rightarrow> ('k, 'v) omap \<Rightarrow> ('k, 'v) omap" where
  "om_erase k m = filter (\<lambda>p. fst p \<noteq> k) m"

text \<open>A change through \<open>it->second\<close> of the entry of one key; nothing when it is absent.\<close>

definition om_update :: "'k \<Rightarrow> ('v \<Rightarrow> 'v) \<Rightarrow> ('k, 'v) omap \<Rightarrow> ('k, 'v) omap" where
  "om_update k f m = map (\<lambda>(a, b). (a, if a = k then f b else b)) m"

text \<open>A loop that changes every value in place.\<close>

definition om_map :: "('v \<Rightarrow> 'w) \<Rightarrow> ('k, 'v) omap \<Rightarrow> ('k, 'w) omap" where
  "om_map f m = map (\<lambda>(a, b). (a, f b)) m"

definition om_keys :: "('k, 'v) omap \<Rightarrow> 'k list" where
  "om_keys m = map fst m"

definition om_ok :: "('k::linorder, 'v) omap \<Rightarrow> bool" where
  "om_ok m \<longleftrightarrow> sorted_wrt (<) (om_keys m)"

text \<open>A \<open>std::set\<close> is a map to \<open>unit\<close>.\<close>

type_synonym 'k oset = "('k, unit) omap"

abbreviation os_insert :: "'k::linorder \<Rightarrow> 'k oset \<Rightarrow> 'k oset" where
  "os_insert k m \<equiv> om_put k () m"

abbreviation os_mem :: "'k oset \<Rightarrow> 'k \<Rightarrow> bool" where
  "os_mem m k \<equiv> k \<in> set (om_keys m)"

section \<open>What a lookup returns\<close>

lemma om_find_put [simp]:
  "om_find (om_put k v m) = (om_find m)(k \<mapsto> v)"
  by (induction m) (auto simp: fun_eq_iff)

lemma om_find_insert [simp]:
  "om_find (om_insert k v m) = (case om_find m k of None \<Rightarrow> (om_find m)(k \<mapsto> v) | Some _ \<Rightarrow> om_find m)"
  by (simp add: om_insert_def split: option.split)

lemma om_find_erase [simp]:
  "om_find (om_erase k m) = (om_find m)(k := None)"
  by (induction m) (auto simp: om_erase_def fun_eq_iff)

lemma om_find_update [simp]:
  "om_find (om_update k f m) a = (if a = k then map_option f (om_find m k) else om_find m a)"
  by (induction m) (auto simp: om_update_def)

lemma om_update_comp: "om_update k g (om_update k f m) = om_update k (\<lambda>v. g (f v)) m"
  by (induction m) (auto simp: om_update_def)

lemma om_find_map [simp]: "om_find (om_map f m) k = map_option f (om_find m k)"
  by (induction m) (auto simp: om_map_def)

lemma om_find_None_iff: "om_find m k = None \<longleftrightarrow> k \<notin> set (om_keys m)"
  by (induction m) (force simp: om_keys_def)+

lemma om_find_not_None_iff: "(\<exists>v. om_find m k = Some v) \<longleftrightarrow> k \<in> set (om_keys m)"
  using om_find_None_iff [of m k] by auto

lemma om_find_in_set: "om_find m k = Some v \<Longrightarrow> (k, v) \<in> set m"
  by (induction m) (auto split: if_splits)

section \<open>Key order\<close>

lemma om_ok_Nil [simp]: "om_ok []"
  by (simp add: om_ok_def om_keys_def)

lemma om_ok_Cons [simp]:
  "om_ok ((a, b) # m) \<longleftrightarrow> (\<forall>k\<in>set (om_keys m). a < k) \<and> om_ok m"
  by (auto simp: om_ok_def om_keys_def)

lemma om_keys_Cons [simp]: "om_keys ((a, b) # m) = a # om_keys m"
  by (simp add: om_keys_def)

lemma om_keys_Nil [simp]: "om_keys [] = []"
  by (simp add: om_keys_def)

lemma set_om_keys_put [simp]: "set (om_keys (om_put k v m)) = insert k (set (om_keys m))"
  by (induction m) (auto split: if_splits)

lemma set_om_keys_erase [simp]: "set (om_keys (om_erase k m)) = set (om_keys m) - {k}"
  by (auto simp: om_keys_def om_erase_def)

lemma om_keys_update [simp]: "om_keys (om_update k f m) = om_keys m"
  by (induction m) (auto simp: om_keys_def om_update_def)

lemma om_keys_map [simp]: "om_keys (om_map f m) = om_keys m"
  by (induction m) (auto simp: om_keys_def om_map_def)

lemma om_ok_put [simp]: "om_ok m \<Longrightarrow> om_ok (om_put k v m)"
  by (induction m) (auto, metis less_trans, metis linorder_neqE)

lemma om_ok_insert [simp]: "om_ok m \<Longrightarrow> om_ok (om_insert k v m)"
  by (simp add: om_insert_def split: option.split)

lemma om_ok_filter: "om_ok m \<Longrightarrow> om_ok (filter P m)"
  by (induction m) (auto simp: om_keys_def)

lemma om_ok_erase [simp]: "om_ok m \<Longrightarrow> om_ok (om_erase k m)"
  by (simp add: om_erase_def om_ok_filter)

lemma om_ok_update [simp]: "om_ok (om_update k f m) = om_ok m"
  by (simp add: om_ok_def)

lemma om_ok_map [simp]: "om_ok (om_map f m) = om_ok m"
  by (simp add: om_ok_def)

lemma om_ok_distinct: "om_ok m \<Longrightarrow> distinct (om_keys m)"
  by (simp add: om_ok_def strict_sorted_iff)

lemma om_in_set_find: "\<lbrakk>om_ok m; (k, v) \<in> set m\<rbrakk> \<Longrightarrow> om_find m k = Some v"
  by (induction m) (force simp: om_keys_def)+

lemma om_find_filter:
  "om_ok m \<Longrightarrow> om_find (filter P m) k =
     (case om_find m k of None \<Rightarrow> None | Some v \<Rightarrow> if P (k, v) then Some v else None)"
proof (induction m)
  case Nil
  then show ?case by simp
next
  case (Cons p m)
  obtain a b where p: "p = (a, b)" by (cases p)
  have "om_find m a = None"
    using Cons.prems by (auto simp: p om_find_None_iff)
  then show ?case
    using Cons by (auto simp: p split: option.split)
qed

text \<open>Two ordered maps with the same lookups are the same list: the form is canonical.\<close>

lemma om_keys_eqI: "\<lbrakk>om_ok m; om_ok n; om_find m = om_find n\<rbrakk> \<Longrightarrow> om_keys m = om_keys n"
  unfolding om_ok_def
  by (rule strict_sorted_equal) (auto simp: om_find_not_None_iff [symmetric])

lemma om_table: "om_ok m \<Longrightarrow> map (\<lambda>k. (k, the (om_find m k))) (om_keys m) = m"
  by (force simp: om_keys_def om_in_set_find intro: map_idI)

lemma om_eqI: "\<lbrakk>om_ok m; om_ok n; om_find m = om_find n\<rbrakk> \<Longrightarrow> m = n"
  by (metis om_keys_eqI om_table)

section \<open>The interface\<close>

text \<open>
  What the components may assume of a keyed container. The laws are on lookups, as the
  documentation of \<open>std::map\<close> gives them; \<open>keys\<close> is the iteration order.
\<close>

locale keyed_store =
  fixes find :: "'m \<Rightarrow> 'k::linorder \<Rightarrow> 'v option"
    and put :: "'k \<Rightarrow> 'v \<Rightarrow> 'm \<Rightarrow> 'm"
    and erase :: "'k \<Rightarrow> 'm \<Rightarrow> 'm"
    and keys :: "'m \<Rightarrow> 'k list"
    and ok :: "'m \<Rightarrow> bool"
  assumes find_put: "find (put k v m) = (find m)(k \<mapsto> v)"
    and find_erase: "find (erase k m) = (find m)(k := None)"
    and keys_find: "k \<in> set (keys m) \<longleftrightarrow> find m k \<noteq> None"
    and keys_sorted: "ok m \<Longrightarrow> sorted_wrt (<) (keys m)"
    and ok_put: "ok m \<Longrightarrow> ok (put k v m)"
    and ok_erase: "ok m \<Longrightarrow> ok (erase k m)"
    and ok_ext: "\<lbrakk>ok m; ok n; find m = find n\<rbrakk> \<Longrightarrow> m = n"
begin

lemma keys_distinct: "ok m \<Longrightarrow> distinct (keys m)"
  using keys_sorted strict_sorted_iff by blast

lemma set_keys: "set (keys m) = dom (find m)"
  by (auto simp: keys_find)

lemma put_put: "ok m \<Longrightarrow> put k v (put k w m) = put k v m"
  by (rule ok_ext) (simp_all add: ok_put find_put)

lemma put_commute: "\<lbrakk>ok m; k \<noteq> l\<rbrakk> \<Longrightarrow> put k v (put l w m) = put l w (put k v m)"
  by (rule ok_ext) (simp_all add: ok_put find_put fun_upd_twist)

lemma erase_put_fresh: "\<lbrakk>ok m; find m k = None\<rbrakk> \<Longrightarrow> erase k (put k v m) = m"
  by (rule ok_ext) (simp_all add: ok_put ok_erase find_put find_erase fun_upd_idem)

lemma erase_absent: "\<lbrakk>ok m; find m k = None\<rbrakk> \<Longrightarrow> erase k m = m"
  by (rule ok_ext) (simp_all add: ok_erase find_erase fun_upd_idem)

lemma length_keys: "ok m \<Longrightarrow> length (keys m) = card (dom (find m))"
  by (simp add: distinct_card keys_distinct flip: set_keys)

lemma length_keys_put:
  assumes "ok m"
  shows "length (keys (put k v m)) = (if find m k = None then Suc (length (keys m)) else length (keys m))"
proof -
  have "finite (dom (find m))"
    by (simp flip: set_keys)
  then show ?thesis
    by (auto simp: length_keys assms ok_put find_put domIff card_insert_if)
qed

end

interpretation om: keyed_store om_find om_put om_erase om_keys om_ok
  by unfold_locales (auto simp: om_ok_def [symmetric] om_find_not_None_iff [symmetric] om_eqI)

end
