(* ===== verification/Irc_Channel.thy ===== *)
theory Irc_Channel
  imports Ordered_Map Irc_Utils
begin

text \<open>
  \<open>includes/Channel.hpp\<close> and \<open>srcs/Channel.cpp\<close>: a channel with its members (by
  descriptor), its invitations (by folded nickname) and its modes. Mutators return the changed
  channel, with the boolean result first where the code has one.
\<close>

section \<open>State\<close>

text \<open>\<open>Member::_client\<close> is a pointer the class never dereferences; \<open>None\<close> is \<open>NULL\<close>.\<close>

record member =
  m_isOperator :: bool
  m_client :: "descriptor option"

definition new_member :: "descriptor option \<Rightarrow> bool \<Rightarrow> member" where
  "new_member client isOp = \<lparr>m_isOperator = isOp, m_client = client\<rparr>"

definition isOperator :: "member \<Rightarrow> bool" where
  [accessor_defs]: "isOperator m = m_isOperator m"

definition setOperator :: "bool \<Rightarrow> member \<Rightarrow> member" where
  [accessor_defs]: "setOperator enabled m = m\<lparr>m_isOperator := enabled\<rparr>"

type_synonym member_map = "(descriptor, member) omap"

record channel =
  ch_name :: string
  ch_topic :: string
  ch_members :: member_map
  ch_invitedUsers :: "string oset"
  ch_inviteOnly :: bool
  ch_topicRestricted :: bool
  ch_hasKey :: bool
  ch_key :: string
  ch_hasUserLimit :: bool
  ch_userLimit :: size_word

definition new_channel :: "string \<Rightarrow> channel" where
  "new_channel name =
     \<lparr>ch_name = name, ch_topic = [], ch_members = [], ch_invitedUsers = [],
      ch_inviteOnly = False, ch_topicRestricted = False, ch_hasKey = False, ch_key = [],
      ch_hasUserLimit = False, ch_userLimit = 0\<rparr>"

definition getName :: "channel \<Rightarrow> string" where
  [accessor_defs]: "getName ch = ch_name ch"

definition getTopic :: "channel \<Rightarrow> string" where
  [accessor_defs]: "getTopic ch = ch_topic ch"

definition setTopic :: "string \<Rightarrow> channel \<Rightarrow> channel" where
  [accessor_defs]: "setTopic topic ch = ch\<lparr>ch_topic := topic\<rparr>"

definition hasTopic :: "channel \<Rightarrow> bool" where
  [accessor_defs]: "hasTopic ch \<longleftrightarrow> ch_topic ch \<noteq> []"

section \<open>Members\<close>

definition hasMember :: "channel \<Rightarrow> descriptor \<Rightarrow> bool" where
  "hasMember ch fd \<longleftrightarrow> om_find (ch_members ch) fd \<noteq> None"

definition addMember :: "descriptor \<Rightarrow> bool \<Rightarrow> channel \<Rightarrow> bool \<times> channel" where
  "addMember fd makeOperator ch =
     (if hasMember ch fd then (False, ch)
      else (True, ch\<lparr>ch_members := om_insert fd (new_member None makeOperator) (ch_members ch)\<rparr>))"

definition removeMember :: "descriptor \<Rightarrow> channel \<Rightarrow> channel" where
  "removeMember fd ch = ch\<lparr>ch_members := om_erase fd (ch_members ch)\<rparr>"

definition IsMemberOperator :: "channel \<Rightarrow> descriptor \<Rightarrow> bool" where
  "IsMemberOperator ch fd =
     (case om_find (ch_members ch) fd of None \<Rightarrow> False | Some m \<Rightarrow> isOperator m)"

definition setMemberOperator :: "descriptor \<Rightarrow> bool \<Rightarrow> channel \<Rightarrow> bool \<times> channel" where
  "setMemberOperator fd enabled ch =
     (case om_find (ch_members ch) fd of
        None \<Rightarrow> (False, ch)
      | Some m \<Rightarrow> (True, ch\<lparr>ch_members := om_update fd (setOperator enabled) (ch_members ch)\<rparr>))"

definition channel_empty :: "channel \<Rightarrow> bool" where
  "channel_empty ch \<longleftrightarrow> ch_members ch = []"

definition getMemberCount :: "channel \<Rightarrow> nat" where
  "getMemberCount ch = length (ch_members ch)"

definition getMembers :: "channel \<Rightarrow> member_map" where
  [accessor_defs]: "getMembers ch = ch_members ch"

section \<open>Invitations\<close>

definition addInvite :: "string \<Rightarrow> channel \<Rightarrow> channel" where
  "addInvite nickname ch = ch\<lparr>ch_invitedUsers := os_insert (ircCaseFold nickname) (ch_invitedUsers ch)\<rparr>"

definition removeInvite :: "string \<Rightarrow> channel \<Rightarrow> channel" where
  "removeInvite nickname ch = ch\<lparr>ch_invitedUsers := om_erase (ircCaseFold nickname) (ch_invitedUsers ch)\<rparr>"

definition isInvited :: "channel \<Rightarrow> string \<Rightarrow> bool" where
  "isInvited ch nickname \<longleftrightarrow> os_mem (ch_invitedUsers ch) (ircCaseFold nickname)"

section \<open>Modes\<close>

definition isInviteOnly :: "channel \<Rightarrow> bool" where
  [accessor_defs]: "isInviteOnly ch = ch_inviteOnly ch"

definition setInviteOnly :: "bool \<Rightarrow> channel \<Rightarrow> channel" where
  [accessor_defs]: "setInviteOnly enabled ch = ch\<lparr>ch_inviteOnly := enabled\<rparr>"

definition isTopicRestricted :: "channel \<Rightarrow> bool" where
  [accessor_defs]: "isTopicRestricted ch = ch_topicRestricted ch"

definition setTopicRestricted :: "bool \<Rightarrow> channel \<Rightarrow> channel" where
  [accessor_defs]: "setTopicRestricted enabled ch = ch\<lparr>ch_topicRestricted := enabled\<rparr>"

definition hasKey :: "channel \<Rightarrow> bool" where
  [accessor_defs]: "hasKey ch = ch_hasKey ch"

definition getKey :: "channel \<Rightarrow> string" where
  [accessor_defs]: "getKey ch = ch_key ch"

definition setKey :: "string \<Rightarrow> channel \<Rightarrow> channel" where
  [accessor_defs]: "setKey key ch = ch\<lparr>ch_hasKey := True, ch_key := key\<rparr>"

definition removeKey :: "channel \<Rightarrow> channel" where
  [accessor_defs]: "removeKey ch = ch\<lparr>ch_hasKey := False, ch_key := []\<rparr>"

definition hasUserLimit :: "channel \<Rightarrow> bool" where
  [accessor_defs]: "hasUserLimit ch = ch_hasUserLimit ch"

definition getUserLimit :: "channel \<Rightarrow> size_word" where
  [accessor_defs]: "getUserLimit ch = ch_userLimit ch"

definition setUserLimit :: "size_word \<Rightarrow> channel \<Rightarrow> channel" where
  [accessor_defs]: "setUserLimit limit ch = ch\<lparr>ch_hasUserLimit := True, ch_userLimit := limit\<rparr>"

definition removeUserLimit :: "channel \<Rightarrow> channel" where
  [accessor_defs]: "removeUserLimit ch = ch\<lparr>ch_hasUserLimit := False, ch_userLimit := 0\<rparr>"

section \<open>Lookups after an operation\<close>

lemma hasMember_add [simp]:
  "hasMember (snd (addMember fd b ch)) g \<longleftrightarrow> g = fd \<or> hasMember ch g"
  by (auto simp: addMember_def hasMember_def split: option.split)

lemma hasMember_remove [simp]:
  "hasMember (removeMember fd ch) g \<longleftrightarrow> g \<noteq> fd \<and> hasMember ch g"
  by (simp add: removeMember_def hasMember_def)

lemma hasMember_setOp [simp]: "hasMember (snd (setMemberOperator fd b ch)) g = hasMember ch g"
  by (simp add: setMemberOperator_def hasMember_def split: option.split)

lemma op_add [simp]:
  "IsMemberOperator (snd (addMember fd b ch)) g =
     (if g = fd \<and> \<not> hasMember ch fd then b else IsMemberOperator ch g)"
  by (auto simp: addMember_def hasMember_def IsMemberOperator_def isOperator_def new_member_def
      split: option.split)

lemma op_remove [simp]:
  "IsMemberOperator (removeMember fd ch) g \<longleftrightarrow> g \<noteq> fd \<and> IsMemberOperator ch g"
  by (simp add: removeMember_def IsMemberOperator_def)

lemma op_setOp [simp]:
  "IsMemberOperator (snd (setMemberOperator fd b ch)) g =
     (if g = fd \<and> hasMember ch fd then b else IsMemberOperator ch g)"
  by (auto simp: setMemberOperator_def hasMember_def IsMemberOperator_def accessor_defs split: option.split)

lemma op_hasMember: "IsMemberOperator ch fd \<Longrightarrow> hasMember ch fd"
  by (simp add: IsMemberOperator_def hasMember_def split: option.splits)

lemma isInvited_add [simp]:
  "isInvited (addInvite n ch) m \<longleftrightarrow> ircEquals m n \<or> isInvited ch m"
  by (auto simp: addInvite_def isInvited_def ircEquals_def)

lemma isInvited_remove [simp]:
  "isInvited (removeInvite n ch) m \<longleftrightarrow> \<not> ircEquals m n \<and> isInvited ch m"
  by (auto simp: removeInvite_def isInvited_def ircEquals_def)

lemma channel_empty_iff: "channel_empty ch \<longleftrightarrow> (\<forall>fd. \<not> hasMember ch fd)"
  by (cases "ch_members ch") (auto simp: channel_empty_def hasMember_def)

section \<open>The interface the server uses\<close>

text \<open>
  The contract of the member table of a channel, as the handlers rely on it: the tests after
  each of the changes. The client lemmas say what a reused descriptor finds.
\<close>

locale member_table =
  fixes has :: "'t \<Rightarrow> descriptor \<Rightarrow> bool"
    and is_op :: "'t \<Rightarrow> descriptor \<Rightarrow> bool"
    and add :: "descriptor \<Rightarrow> bool \<Rightarrow> 't \<Rightarrow> 't"
    and remove :: "descriptor \<Rightarrow> 't \<Rightarrow> 't"
    and set_op :: "descriptor \<Rightarrow> bool \<Rightarrow> 't \<Rightarrow> 't"
  assumes op_has: "is_op t fd \<Longrightarrow> has t fd"
    and has_add: "has (add fd b t) g \<longleftrightarrow> g = fd \<or> has t g"
    and has_remove: "has (remove fd t) g \<longleftrightarrow> g \<noteq> fd \<and> has t g"
    and has_set_op: "has (set_op fd b t) g = has t g"
    and is_op_add: "is_op (add fd b t) g = (if g = fd \<and> \<not> has t fd then b else is_op t g)"
    and is_op_remove: "is_op (remove fd t) g \<longleftrightarrow> g \<noteq> fd \<and> is_op t g"
    and is_op_set_op: "is_op (set_op fd b t) g = (if g = fd \<and> has t fd then b else is_op t g)"
begin

lemma not_op_when_absent: "\<not> has t fd \<Longrightarrow> \<not> is_op t fd"
  using op_has by blast

lemma rejoin_not_op: "\<not> is_op (add fd False (remove fd t)) fd"
  by (simp add: is_op_add has_remove)

lemma set_op_absent: "\<not> has t fd \<Longrightarrow> is_op (set_op fd b t) = is_op t"
  by (auto simp: is_op_set_op)

lemma others_unchanged:
  assumes "g \<noteq> fd"
  shows "has (add fd b t) g = has t g" "has (remove fd t) g = has t g"
    "is_op (add fd b t) g = is_op t g" "is_op (remove fd t) g = is_op t g"
    "is_op (set_op fd b t) g = is_op t g"
  using assms by (simp_all add: has_add has_remove is_op_add is_op_remove is_op_set_op)

end

interpretation members: member_table hasMember IsMemberOperator
  "\<lambda>fd b ch. snd (addMember fd b ch)" removeMember "\<lambda>fd b ch. snd (setMemberOperator fd b ch)"
  by unfold_locales (auto dest: op_hasMember)

section \<open>The invariant of a channel\<close>

definition channel_ok :: "channel \<Rightarrow> bool" where
  "channel_ok ch \<longleftrightarrow>
     om_ok (ch_members ch) \<and> om_ok (ch_invitedUsers ch)
     \<and> (ch_hasKey ch \<longleftrightarrow> ch_key ch \<noteq> [])
     \<and> (ch_hasUserLimit ch \<longleftrightarrow> ch_userLimit ch \<noteq> 0)"

lemma channel_ok_new: "channel_ok (new_channel name)"
  by (simp add: channel_ok_def new_channel_def)

lemma channel_ok_ops:
  assumes "channel_ok ch"
  shows "channel_ok (snd (addMember fd b ch))" "channel_ok (removeMember fd ch)"
    "channel_ok (snd (setMemberOperator fd b ch))"
    "channel_ok (addInvite n ch)" "channel_ok (removeInvite n ch)"
    "channel_ok (setTopic t ch)" "channel_ok (setInviteOnly b ch)" "channel_ok (setTopicRestricted b ch)"
    "key \<noteq> [] \<Longrightarrow> channel_ok (setKey key ch)" "channel_ok (removeKey ch)"
    "limit \<noteq> 0 \<Longrightarrow> channel_ok (setUserLimit limit ch)" "channel_ok (removeUserLimit ch)"
  using assms
  by (auto simp: channel_ok_def addMember_def removeMember_def setMemberOperator_def addInvite_def
      removeInvite_def accessor_defs split: option.split)

text \<open>The fields a member or invitation change leaves alone.\<close>

lemma channel_frame [simp]:
  "ch_name (snd (addMember fd b ch)) = ch_name ch" "ch_name (removeMember fd ch) = ch_name ch"
  "ch_name (snd (setMemberOperator fd b ch)) = ch_name ch"
  "ch_name (addInvite n ch) = ch_name ch" "ch_name (removeInvite n ch) = ch_name ch"
  "ch_invitedUsers (snd (addMember fd b ch)) = ch_invitedUsers ch"
  "ch_invitedUsers (removeMember fd ch) = ch_invitedUsers ch"
  "ch_invitedUsers (snd (setMemberOperator fd b ch)) = ch_invitedUsers ch"
  "ch_members (addInvite n ch) = ch_members ch" "ch_members (removeInvite n ch) = ch_members ch"
  by (simp_all add: addMember_def removeMember_def setMemberOperator_def addInvite_def
      removeInvite_def split: option.split)

lemma invited_ops [simp]:
  "os_mem (ch_invitedUsers (addInvite n ch)) k \<longleftrightarrow> k = ircCaseFold n \<or> os_mem (ch_invitedUsers ch) k"
  "os_mem (ch_invitedUsers (removeInvite n ch)) k \<longleftrightarrow> k \<noteq> ircCaseFold n \<and> os_mem (ch_invitedUsers ch) k"
  by (auto simp: addInvite_def removeInvite_def)

lemma hasMember_invites [simp]:
  "hasMember (addInvite n ch) = hasMember ch" "hasMember (removeInvite n ch) = hasMember ch"
  by (simp_all add: hasMember_def fun_eq_iff)

end
