(* ===== verification/Irc_Server.thy ===== *)
theory Irc_Server
  imports Irc_Client Irc_Channel
begin

text \<open>
  The state of \<open>Server\<close> (\<open>includes/Server.hpp\<close>) and the helpers every handler goes
  through: the lookups and the nickname check of \<open>srcs/Server/ServerUtils.cpp\<close> and the output
  queue of \<open>srcs/Server/ServerSend.cpp\<close>. A \<open>Client &\<close> or \<open>Client *\<close> is the
  descriptor under which \<open>_clients\<close> holds the object, a \<open>Channel *\<close> the key under which
  \<open>_channels\<close> holds it. The last section says what one queued line does to a client.
\<close>

section \<open>State\<close>

record pollfd =
  pf_fd :: descriptor
  pf_events :: short_int
  pf_revents :: short_int

text \<open>
  \<open>s_openFds\<close> is not a field of the class: it is the part of the process's descriptor table
  that the server opens and closes (\<open>socket\<close>, \<open>accept\<close>, \<open>close\<close>).
  \<open>_debug\<close> is false from the constructor on and only guards prints; it is left out.
\<close>

record server =
  s_listenerFd :: descriptor
  s_password :: string
  s_pollFds :: "pollfd list"
  s_clients :: "(descriptor, client) omap"
  s_nicknameIndex :: "(string, descriptor) omap"
  s_channels :: "(string, channel) omap"
  s_openFds :: "descriptor list"

text \<open>The event bits of \<open><poll.h>\<close> that the code tests.\<close>

definition POLLIN :: short_int where "POLLIN = 1"
definition POLLOUT :: short_int where "POLLOUT = 4"
definition POLLERR :: short_int where "POLLERR = 8"
definition POLLHUP :: short_int where "POLLHUP = 16"
definition POLLNVAL :: short_int where "POLLNVAL = 32"

lemmas poll_bits = POLLIN_def POLLOUT_def POLLERR_def POLLHUP_def POLLNVAL_def

section \<open>Lookups\<close>

definition findClient :: "server \<Rightarrow> descriptor \<Rightarrow> client option" where
  "findClient s fd = om_find (s_clients s) fd"

definition findClientByNickname :: "server \<Rightarrow> string \<Rightarrow> client option" where
  "findClientByNickname s nickname =
     (case om_find (s_nicknameIndex s) (ircCaseFold nickname) of
        None \<Rightarrow> None
      | Some fd \<Rightarrow> findClient s fd)"

definition findChannel :: "server \<Rightarrow> string \<Rightarrow> channel option" where
  "findChannel s name = om_find (s_channels s) (ircCaseFold name)"

definition isValidNickname :: "string \<Rightarrow> bool" where
  "isValidNickname nickname =
     (if nickname = [] then False
      else if nickname ! 0 = CHR ''#'' \<or> nickname ! 0 = CHR ''&'' \<or> nickname ! 0 = CHR '':'' then False
      else (\<forall>c\<in>set nickname. \<not> (c = space_char \<or> c = CHR '','' \<or> c = return_char
              \<or> c = newline_char \<or> c = tab_char)))"

text \<open>The object behind a \<open>Client &\<close>, and a change through that reference.\<close>

definition client_at :: "server \<Rightarrow> descriptor \<Rightarrow> client" where
  "client_at s fd = the (findClient s fd)"

definition on_client :: "descriptor \<Rightarrow> (client \<Rightarrow> client) \<Rightarrow> server \<Rightarrow> server" where
  "on_client fd f s = s\<lparr>s_clients := om_update fd f (s_clients s)\<rparr>"

text \<open>A change through a \<open>Channel *\<close>.\<close>

definition on_channel :: "string \<Rightarrow> (channel \<Rightarrow> channel) \<Rightarrow> server \<Rightarrow> server" where
  "on_channel key f s = s\<lparr>s_channels := om_update key f (s_channels s)\<rparr>"

section \<open>The output queue\<close>

definition MAX_PENDING_OUTPUT :: nat where
  "MAX_PENDING_OUTPUT = 8 * 1024 * 1024"

text \<open>The loop of lines 74 to 81: the first entry with this descriptor.\<close>

fun enable_pollout :: "descriptor \<Rightarrow> pollfd list \<Rightarrow> pollfd list" where
  "enable_pollout fd [] = []"
| "enable_pollout fd (p # ps) =
     (if pf_fd p = fd then p\<lparr>pf_events := pf_events p OR POLLOUT\<rparr> # ps
      else p # enable_pollout fd ps)"

definition queueRaw :: "server \<Rightarrow> descriptor \<Rightarrow> string \<Rightarrow> bool \<times> server" where
  "queueRaw s fd data =
     (let client = client_at s fd in
      if isDisconnectRequested client then (False, s)
      else if length data = 0 then (True, s)
      else if MAX_PENDING_OUTPUT < length data
              \<or> MAX_PENDING_OUTPUT - length data < getOutputSize client
        then (False, on_client fd (requestDisconnect ''Exceeded Client OutputBuffer'') s)
      else let s1 = on_client fd (appendOutput data) s in
        (True, s1\<lparr>s_pollFds := enable_pollout (getFd client) (s_pollFds s1)\<rparr>))"

definition queueLine :: "server \<Rightarrow> descriptor \<Rightarrow> string \<Rightarrow> bool \<times> server" where
  "queueLine s fd line = queueRaw s fd (line @ crlf)"

definition sendNumeric :: "server \<Rightarrow> descriptor \<Rightarrow> string \<Rightarrow> string \<Rightarrow> bool \<times> server" where
  "sendNumeric s fd numeric arguments =
     (let client = client_at s fd;
          replyTarget = (if hasNickname client then getNickname client else ''*'');
          reply = '':ircserv '' @ numeric @ '' '' @ replyTarget;
          reply' = (if arguments \<noteq> [] then reply @ '' '' @ arguments else reply)
      in queueLine s fd reply')"

text \<open>Calls whose result the code drops.\<close>

abbreviation queue_line :: "server \<Rightarrow> descriptor \<Rightarrow> string \<Rightarrow> server" where
  "queue_line s fd line \<equiv> snd (queueLine s fd line)"

abbreviation send_numeric :: "server \<Rightarrow> descriptor \<Rightarrow> string \<Rightarrow> string \<Rightarrow> server" where
  "send_numeric s fd numeric arguments \<equiv> snd (sendNumeric s fd numeric arguments)"

text \<open>
  \<open>flushClientOutput\<close>; \<open>send_ret\<close> is what \<open>send\<close> returns for this descriptor and
  buffer (\<open>ssize_t\<close>).
\<close>

definition clear_pollout :: "nat \<Rightarrow> server \<Rightarrow> server" where
  "clear_pollout index s =
     s\<lparr>s_pollFds := (s_pollFds s)[index := (s_pollFds s ! index)
        \<lparr>pf_events := pf_events (s_pollFds s ! index) AND NOT POLLOUT\<rparr>]\<rparr>"

definition flushClientOutput :: "(descriptor \<Rightarrow> string \<Rightarrow> int) \<Rightarrow> server \<Rightarrow> nat \<Rightarrow> bool \<times> server" where
  "flushClientOutput send_ret s index =
     (let fd = pf_fd (s_pollFds s ! index) in
      case findClient s fd of
        None \<Rightarrow> (False, s)
      | Some client \<Rightarrow>
          if \<not> hasOutput client then (True, clear_pollout index s)
          else let sent = send_ret fd (getOutputData client) in
            if sent \<le> 0 then (False, on_client fd (requestDisconnect ''Write error'') s)
            else let s1 = on_client fd (consumeOutput (nat sent)) s in
              if \<not> hasOutput (client_at s1 fd) then (True, clear_pollout index s1)
              else (True, s1))"

section \<open>Broadcasts and replies\<close>

text \<open>The loop of \<open>broadcastToChannel\<close>; the default of \<open>excludeFd\<close> is \<open>-1\<close>.\<close>

fun broadcast_loop :: "member_map \<Rightarrow> string \<Rightarrow> descriptor \<Rightarrow> server \<Rightarrow> server" where
  "broadcast_loop [] message excludeFd s = s"
| "broadcast_loop ((fd, m) # members) message excludeFd s =
     broadcast_loop members message excludeFd
       (if fd \<noteq> excludeFd then
          (case findClient s fd of
             Some client \<Rightarrow> queue_line s fd message
           | None \<Rightarrow> s)
        else s)"

definition broadcastToChannel :: "server \<Rightarrow> channel \<Rightarrow> string \<Rightarrow> descriptor \<Rightarrow> server" where
  "broadcastToChannel s channel message excludeFd =
     broadcast_loop (getMembers channel) message excludeFd s"

abbreviation no_exclusion :: descriptor where
  "no_exclusion \<equiv> -1"

text \<open>The loops over \<open>std::set<int>\<close> of recipients (NICK and QUIT).\<close>

fun queue_to_each :: "descriptor oset \<Rightarrow> string \<Rightarrow> server \<Rightarrow> server" where
  "queue_to_each [] message s = s"
| "queue_to_each ((fd, u) # fds) message s =
     queue_to_each fds message
       (case findClient s fd of
          Some target \<Rightarrow> queue_line s fd message
        | None \<Rightarrow> s)"

fun names_loop :: "server \<Rightarrow> member_map \<Rightarrow> string \<Rightarrow> string" where
  "names_loop s [] namesList = namesList"
| "names_loop s ((fd, m) # members) namesList =
     (case findClient s fd of
        None \<Rightarrow> names_loop s members namesList
      | Some memberClient \<Rightarrow>
          names_loop s members
            ((if namesList \<noteq> [] then namesList @ '' '' else namesList)
             @ (if isOperator m then ''@'' else [])
             @ getNickname memberClient))"

definition sendChannelNames :: "server \<Rightarrow> descriptor \<Rightarrow> channel \<Rightarrow> server" where
  "sendChannelNames s fd channel =
     (let namesList = names_loop s (getMembers channel) [];
          s1 = send_numeric s fd ''353'' (''= '' @ getName channel @ '' :'' @ namesList)
      in send_numeric s1 fd ''366'' (getName channel @ '' :End of /NAMES list''))"

definition SendWelcome :: "server \<Rightarrow> descriptor \<Rightarrow> server" where
  "SendWelcome s fd =
     (let s1 = send_numeric s fd ''001''
                 ('':Welcome to this really awesome IRC server !'' @ getPrefix (client_at s fd))
      in send_numeric s1 fd ''376'' '':End of MOTD command'')"

section \<open>What one queued line does to a client\<close>

text \<open>The three outcomes of \<open>queueRaw\<close> for the client it is called on.\<close>

definition deliver :: "string \<Rightarrow> client \<Rightarrow> client" where
  "deliver line c =
     (if c_disconnectRequested c then c
      else if MAX_PENDING_OUTPUT < length (c_outputBuffer c) + length line + 2
        then requestDisconnect ''Exceeded Client OutputBuffer'' c
      else appendOutput (line @ crlf) c)"

lemma findClient_on_client [simp]:
  "findClient (on_client fd f s) g = (if g = fd then map_option f (findClient s fd) else findClient s g)"
  by (simp add: findClient_def on_client_def)

lemma findClient_pollFds [simp]: "findClient (s\<lparr>s_pollFds := ps\<rparr>) = findClient s"
  by (simp add: findClient_def fun_eq_iff)

lemma findClient_channels [simp]: "findClient (s\<lparr>s_channels := cs\<rparr>) = findClient s"
  by (simp add: findClient_def fun_eq_iff)

lemma findClient_index [simp]: "findClient (s\<lparr>s_nicknameIndex := i\<rparr>) = findClient s"
  by (simp add: findClient_def fun_eq_iff)

lemma findClient_on_channel [simp]: "findClient (on_channel k f s) = findClient s"
  by (simp add: findClient_def on_channel_def fun_eq_iff)

lemma om_update_idem: "(\<And>v. om_find m k = Some v \<Longrightarrow> f v = v) \<Longrightarrow> om_find (om_update k f m) = om_find m"
  by (cases "om_find m k") (auto simp: fun_eq_iff)

lemma findClient_queueLine:
  assumes "findClient s fd \<noteq> None"
  shows "findClient (queue_line s fd line) g =
    (if g = fd then map_option (deliver line) (findClient s fd) else findClient s g)"
  using assms
  by (auto simp: queueLine_def queueRaw_def deliver_def client_at_def accessor_defs Let_def)

end
