(* ===== verification/Irc_Output.thy ===== *)
theory Irc_Output
  imports Irc_Server
begin

text \<open>
  What the output operations of \<open>Irc_Server\<close> change and what they leave alone. \<open>skel\<close>
  erases the parts of the server that only concern output (output buffers, disconnect requests,
  poll events); the locale \<open>output_op\<close> is the contract of an operation that changes nothing
  else, and is interpreted on each of them. The second half states who receives a line.
\<close>

section \<open>The protocol state\<close>

definition quiet_client :: "client \<Rightarrow> client" where
  "quiet_client c = c\<lparr>c_outputBuffer := [], c_disconnectRequested := False, c_disconnectReason := []\<rparr>"

definition quiet_pollfd :: "pollfd \<Rightarrow> pollfd" where
  "quiet_pollfd p = p\<lparr>pf_events := 0, pf_revents := 0\<rparr>"

definition skel :: "server \<Rightarrow> server" where
  "skel s = s\<lparr>s_clients := om_map quiet_client (s_clients s), s_pollFds := map quiet_pollfd (s_pollFds s)\<rparr>"

lemma quiet_client_sel [simp]:
  "c_nickname (quiet_client c) = c_nickname c" "c_username (quiet_client c) = c_username c"
  "c_realname (quiet_client c) = c_realname c" "c_fd (quiet_client c) = c_fd c"
  "c_passwordAccepted (quiet_client c) = c_passwordAccepted c" "c_hasUser (quiet_client c) = c_hasUser c"
  "c_registered (quiet_client c) = c_registered c" "c_inputBuffer (quiet_client c) = c_inputBuffer c"
  by (simp_all add: quiet_client_def)

lemma quiet_client_ops [simp]:
  "quiet_client (requestDisconnect r c) = quiet_client c"
  "quiet_client (appendOutput d c) = quiet_client c"
  "quiet_client (consumeOutput n c) = quiet_client c"
  "quiet_client (deliver l c) = quiet_client c"
  by (simp_all add: quiet_client_def deliver_def consumeOutput_def accessor_defs)

lemma quiet_pollfd_fd [simp]: "pf_fd (quiet_pollfd p) = pf_fd p"
  by (simp add: quiet_pollfd_def)

lemma skel_sel [simp]:
  "s_listenerFd (skel s) = s_listenerFd s" "s_password (skel s) = s_password s"
  "s_nicknameIndex (skel s) = s_nicknameIndex s" "s_channels (skel s) = s_channels s"
  "s_openFds (skel s) = s_openFds s" "s_clients (skel s) = om_map quiet_client (s_clients s)"
  "map pf_fd (s_pollFds (skel s)) = map pf_fd (s_pollFds s)"
  by (simp_all add: skel_def comp_def)

lemma skel_cong:
  assumes "skel s = skel t"
  shows "s_listenerFd s = s_listenerFd t" "s_password s = s_password t"
    "s_nicknameIndex s = s_nicknameIndex t" "s_channels s = s_channels t"
    "s_openFds s = s_openFds t" "om_keys (s_clients s) = om_keys (s_clients t)"
    "om_ok (s_clients s) = om_ok (s_clients t)"
    "map pf_fd (s_pollFds s) = map pf_fd (s_pollFds t)"
    "map_option quiet_client (findClient s fd) = map_option quiet_client (findClient t fd)"
proof -
  have clients: "om_map quiet_client (s_clients s) = om_map quiet_client (s_clients t)"
    using arg_cong [OF assms, of s_clients] by simp
  from arg_cong [OF clients, of om_keys] show "om_keys (s_clients s) = om_keys (s_clients t)"
    by simp
  then show "om_ok (s_clients s) = om_ok (s_clients t)"
    by (simp add: om_ok_def)
  from arg_cong [OF clients, of "\<lambda>m. om_find m fd"]
  show "map_option quiet_client (findClient s fd) = map_option quiet_client (findClient t fd)"
    by (simp add: findClient_def)
qed (use arg_cong [OF assms, of s_listenerFd] arg_cong [OF assms, of s_password]
    arg_cong [OF assms, of s_nicknameIndex] arg_cong [OF assms, of s_channels]
    arg_cong [OF assms, of s_openFds] arg_cong [OF assms, of "\<lambda>s. map pf_fd (s_pollFds s)"] in simp_all)

lemma skel_find_Some:
  assumes "skel s = skel t" "findClient s fd = Some c"
  shows "\<exists>d. findClient t fd = Some d \<and> quiet_client d = quiet_client c"
  using skel_cong(9) [OF assms(1), of fd] assms(2) by (cases "findClient t fd") auto

lemma quiet_client_same_sel:
  assumes "quiet_client c = quiet_client d"
  shows "c_nickname c = c_nickname d" "c_username c = c_username d" "c_realname c = c_realname d"
    "c_fd c = c_fd d" "c_passwordAccepted c = c_passwordAccepted d" "c_hasUser c = c_hasUser d"
    "c_registered c = c_registered d" "c_inputBuffer c = c_inputBuffer d"
  using arg_cong [OF assms, of c_nickname] arg_cong [OF assms, of c_username]
    arg_cong [OF assms, of c_realname] arg_cong [OF assms, of c_fd]
    arg_cong [OF assms, of c_passwordAccepted] arg_cong [OF assms, of c_hasUser]
    arg_cong [OF assms, of c_registered] arg_cong [OF assms, of c_inputBuffer]
  by simp_all

lemma skel_nickname:
  assumes "skel s = skel t"
  shows "map_option c_nickname (findClient s fd) = map_option c_nickname (findClient t fd)"
  using arg_cong [OF skel_cong(9) [OF assms, of fd], of "map_option c_nickname"]
  by (simp add: option.map_comp comp_def)

section \<open>The contract of an output operation\<close>

locale output_op =
  fixes f :: "server \<Rightarrow> server"
  assumes skel: "skel (f s) = skel s"
begin

lemma frame:
  "s_listenerFd (f s) = s_listenerFd s" "s_password (f s) = s_password s"
  "s_nicknameIndex (f s) = s_nicknameIndex s" "s_channels (f s) = s_channels s"
  "s_openFds (f s) = s_openFds s" "om_keys (s_clients (f s)) = om_keys (s_clients s)"
  "om_ok (s_clients (f s)) = om_ok (s_clients s)"
  "map pf_fd (s_pollFds (f s)) = map pf_fd (s_pollFds s)"
  by (rule skel_cong [OF skel])+

lemma same_quiet: "map_option quiet_client (findClient (f s) fd) = map_option quiet_client (findClient s fd)"
  by (rule skel_cong(9) [OF skel])

lemma live: "findClient (f s) fd = None \<longleftrightarrow> findClient s fd = None"
  using same_quiet [of s fd] by (cases "findClient s fd"; cases "findClient (f s) fd"; simp)

lemma live_Some: "(\<exists>c. findClient (f s) fd = Some c) \<longleftrightarrow> (\<exists>c. findClient s fd = Some c)"
  using live [of s fd] by auto

lemma find_Some: "findClient s fd = Some c \<Longrightarrow> \<exists>d. findClient (f s) fd = Some d \<and> quiet_client d = quiet_client c"
  by (rule skel_find_Some [OF skel [symmetric]])

lemma find_channel: "findChannel (f s) n = findChannel s n"
  by (simp add: findChannel_def frame)

end

lemma om_map_update_same: "(\<And>v. g (f v) = g v) \<Longrightarrow> om_map g (om_update k f m) = om_map g m"
  by (induction m) (auto simp: om_map_def om_update_def)

lemma skel_on_client: "(\<And>c. quiet_client (f c) = quiet_client c) \<Longrightarrow> skel (on_client fd f s) = skel s"
  by (simp add: skel_def on_client_def om_map_update_same)

lemma skel_pollFds:
  "map quiet_pollfd ps = map quiet_pollfd (s_pollFds s) \<Longrightarrow> skel (s\<lparr>s_pollFds := ps\<rparr>) = skel s"
  by (simp add: skel_def)

lemma map_quiet_enable [simp]: "map quiet_pollfd (enable_pollout fd ps) = map quiet_pollfd ps"
  by (induction ps) (auto simp: quiet_pollfd_def)

lemma skel_queueRaw [skel_simps]: "skel (snd (queueRaw s fd data)) = skel s"
  by (auto simp: queueRaw_def Let_def skel_on_client skel_pollFds on_client_def
      intro: skel_on_client [unfolded on_client_def] trans [OF skel_pollFds])

interpretation queueLine: output_op "\<lambda>s. queue_line s fd line" for fd line
  by unfold_locales (simp add: queueLine_def skel_simps)

interpretation sendNumeric: output_op "\<lambda>s. send_numeric s fd numeric arguments" for fd numeric arguments
  by unfold_locales (simp add: sendNumeric_def Let_def queueLine.skel)

lemma skel_broadcast_loop: "skel (broadcast_loop ms message ex s) = skel s"
  by (induction ms message ex s rule: broadcast_loop.induct)
    (auto simp: queueLine.skel split: option.split)

interpretation broadcast: output_op "\<lambda>s. broadcastToChannel s channel message ex" for channel message ex
  by unfold_locales (simp add: broadcastToChannel_def skel_broadcast_loop)

interpretation queue_to_each: output_op "\<lambda>s. queue_to_each fds message s" for fds message
proof unfold_locales
  show "skel (queue_to_each fds message s) = skel s" for s
    by (induction fds message s rule: queue_to_each.induct) (auto simp: queueLine.skel split: option.split)
qed

interpretation channelNames: output_op "\<lambda>s. sendChannelNames s fd channel" for fd channel
  by unfold_locales (simp add: sendChannelNames_def Let_def sendNumeric.skel)

interpretation greeting: output_op "\<lambda>s. SendWelcome s fd" for fd
  by unfold_locales (simp add: SendWelcome_def Let_def sendNumeric.skel)

interpretation disconnect: output_op "\<lambda>s. on_client fd (requestDisconnect reason) s" for fd reason
  by unfold_locales (simp add: skel_on_client)

lemma skel_clear_pollout: "index < length (s_pollFds s) \<Longrightarrow> skel (clear_pollout index s) = skel s"
  unfolding clear_pollout_def
  by (rule skel_pollFds) (auto simp: map_update quiet_pollfd_def list_update_same_conv)

lemma skel_flush:
  "index < length (s_pollFds s) \<Longrightarrow> skel (snd (flushClientOutput send_ret s index)) = skel s"
  by (auto simp: flushClientOutput_def Let_def skel_clear_pollout skel_on_client on_client_def
      intro: trans [OF skel_clear_pollout] skel_on_client [unfolded on_client_def] split: option.split)

lemmas skel_output [skel_simps] =
  queueLine.skel sendNumeric.skel broadcast.skel queue_to_each.skel channelNames.skel greeting.skel
  disconnect.skel

lemmas frame_output [simp] =
  queueLine.frame sendNumeric.frame broadcast.frame queue_to_each.frame channelNames.frame
  greeting.frame disconnect.frame

lemmas live_output [simp] =
  queueLine.live sendNumeric.live broadcast.live queue_to_each.live channelNames.live greeting.live
  disconnect.live

lemmas live_Some_output [simp] =
  queueLine.live_Some sendNumeric.live_Some broadcast.live_Some queue_to_each.live_Some
  channelNames.live_Some greeting.live_Some disconnect.live_Some

lemmas find_channel_output [simp] =
  queueLine.find_channel sendNumeric.find_channel broadcast.find_channel queue_to_each.find_channel
  channelNames.find_channel greeting.find_channel disconnect.find_channel

section \<open>Who receives a line\<close>

lemma findClient_sendNumeric:
  assumes "findClient s fd = Some c"
  shows "findClient (send_numeric s fd numeric arguments) g =
    (if g = fd then
       Some (deliver ('':ircserv '' @ numeric @ '' '' @ (if hasNickname c then getNickname c else ''*'')
               @ (if arguments \<noteq> [] then '' '' @ arguments else [])) c)
     else findClient s g)"
  using assms by (simp add: sendNumeric_def Let_def findClient_queueLine client_at_def)

lemma findClient_broadcast_loop:
  "distinct (om_keys ms) \<Longrightarrow>
   findClient (broadcast_loop ms message ex s) g =
     (if g \<in> set (om_keys ms) \<and> g \<noteq> ex then map_option (deliver message) (findClient s g)
      else findClient s g)"
proof (induction ms message ex s rule: broadcast_loop.induct)
  case (2 fd m members message ex s)
  then show ?case
    by (auto simp: findClient_queueLine split: option.split)
qed simp

lemma findClient_broadcast [find_simps]:
  "om_ok (ch_members channel) \<Longrightarrow>
   findClient (broadcastToChannel s channel message ex) g =
     (if hasMember channel g \<and> g \<noteq> ex then map_option (deliver message) (findClient s g)
      else findClient s g)"
  by (auto simp: broadcastToChannel_def getMembers_def findClient_broadcast_loop om_ok_distinct
      hasMember_def om_find_None_iff)

lemma findClient_queue_to_each [find_simps]:
  "distinct (om_keys fds) \<Longrightarrow>
   findClient (queue_to_each fds message s) g =
     (if os_mem fds g then map_option (deliver message) (findClient s g) else findClient s g)"
proof (induction fds message s rule: queue_to_each.induct)
  case (2 fd u fds message s)
  then show ?case
    by (auto simp: findClient_queueLine om_find_None_iff split: option.split)
qed simp

section \<open>What every output operation keeps of the output queues\<close>

text \<open>Whether \<open>poll\<close> is asked to report that a descriptor can be written.\<close>

definition armed :: "pollfd list \<Rightarrow> descriptor \<Rightarrow> bool" where
  "armed ps fd \<longleftrightarrow>
     (case List.find (\<lambda>p. pf_fd p = fd) ps of None \<Rightarrow> True | Some p \<Rightarrow> pf_events p AND POLLOUT \<noteq> 0)"

text \<open>No output buffer exceeds the limit, and pending output will be noticed by \<open>poll\<close>.\<close>

definition output_ok :: "server \<Rightarrow> bool" where
  "output_ok s \<longleftrightarrow>
     (\<forall>fd c. findClient s fd = Some c \<longrightarrow>
        length (c_outputBuffer c) \<le> MAX_PENDING_OUTPUT
        \<and> (c_outputBuffer c \<noteq> [] \<longrightarrow> armed (s_pollFds s) (c_fd c)))"

lemma or_pollout: "(e OR POLLOUT) AND POLLOUT \<noteq> 0"
proof -
  have "(e OR POLLOUT) AND POLLOUT = POLLOUT"
    by (simp add: bit_eq_iff bit_simps)
  then show ?thesis
    by (simp add: POLLOUT_def)
qed

lemma armed_Nil [simp]: "armed [] fd"
  by (simp add: armed_def)

lemma armed_Cons [simp]:
  "armed (p # ps) fd = (if pf_fd p = fd then pf_events p AND POLLOUT \<noteq> 0 else armed ps fd)"
  by (simp add: armed_def)

lemma armed_entry:
  "\<lbrakk>armed ps fd; fd \<in> set (map pf_fd ps)\<rbrakk> \<Longrightarrow> \<exists>p\<in>set ps. pf_fd p = fd \<and> pf_events p AND POLLOUT \<noteq> 0"
  by (induction ps) (auto split: if_splits)

lemma armed_enable: "fd = g \<or> armed ps fd \<Longrightarrow> armed (enable_pollout g ps) fd"
  by (induction ps) (use or_pollout in auto)

lemma armed_update: "pf_fd (ps ! i) \<noteq> fd \<Longrightarrow> pf_fd p \<noteq> fd \<Longrightarrow> armed (ps[i := p]) fd = armed ps fd"
proof (induction ps arbitrary: i)
  case (Cons q ps)
  then show ?case by (cases i) auto
qed simp

lemma armed_append: "pf_fd p \<noteq> fd \<Longrightarrow> armed (ps @ [p]) fd = armed ps fd"
  by (induction ps) auto

lemma armed_map_revents: "armed (map (\<lambda>p. p\<lparr>pf_revents := f p\<rparr>) ps) fd = armed ps fd"
  by (induction ps) auto

lemma deliver_bounded:
  "length (c_outputBuffer c) \<le> MAX_PENDING_OUTPUT \<Longrightarrow> length (c_outputBuffer (deliver l c)) \<le> MAX_PENDING_OUTPUT"
  by (simp add: deliver_def accessor_defs)

lemma deliver_fd [simp]: "c_fd (deliver l c) = c_fd c"
  by (simp add: deliver_def accessor_defs)

lemma pollFds_queueLine:
  assumes "findClient s fd = Some c"
  shows "s_pollFds (queue_line s fd line) =
    (if c_outputBuffer (deliver line c) = c_outputBuffer c then s_pollFds s
     else enable_pollout (c_fd c) (s_pollFds s))"
  using assms
  by (auto simp: queueLine_def queueRaw_def Let_def deliver_def client_at_def accessor_defs on_client_def)

lemma output_ok_queueLine:
  assumes live: "findClient s fd \<noteq> None" and ok: "output_ok s"
  shows "output_ok (queue_line s fd line)"
proof -
  obtain c where c: "findClient s fd = Some c"
    using live by blast
  have "length (c_outputBuffer d) \<le> MAX_PENDING_OUTPUT
      \<and> (c_outputBuffer d \<noteq> [] \<longrightarrow> armed (s_pollFds (queue_line s fd line)) (c_fd d))"
    if d: "findClient (queue_line s fd line) g = Some d" for g d
  proof (cases "g = fd")
    case True
    then have "d = deliver line c"
      using d c by (simp add: findClient_queueLine)
    with ok c show ?thesis
      by (auto simp: output_ok_def deliver_bounded pollFds_queueLine intro: armed_enable)
  next
    case False
    then have "findClient s g = Some d"
      using d c by (simp add: findClient_queueLine)
    with ok c show ?thesis
      by (auto simp: output_ok_def pollFds_queueLine intro: armed_enable)
  qed
  then show ?thesis
    unfolding output_ok_def by blast
qed

end
