(* ===== verification/Irc_Command.thy ===== *)
theory Irc_Command
  imports Irc_Utils
begin

text \<open>
  \<open>includes/Command.hpp\<close> and \<open>srcs/Command/Command.cpp\<close>: the parser of one line into a
  command name and its parameters. The loops run over positions of the line, as in the code;
  \<open>reference_parameters\<close> is the grammar on the remaining characters, and
  \<open>parse_params_reference\<close> shows they agree.
\<close>

section \<open>The parser\<close>

record command =
  cmd_valid :: bool
  cmd_name :: string
  cmd_parameters :: "string list"

definition MAX_COMMAND_PARAMETERS :: nat where
  "MAX_COMMAND_PARAMETERS = 15"

definition uppercaseAscii :: "char \<Rightarrow> char" where
  "uppercaseAscii c =
     (if CHR ''a'' \<le> c \<and> c \<le> CHR ''z'' then char_of (of_char c - 97 + 65 :: int) else c)"

definition normalizeName :: "string \<Rightarrow> string" where
  "normalizeName name = map uppercaseAscii name"

text \<open>\<open>while (position < line.size() && line[position] == ' ') ++position;\<close>\<close>

function skip_spaces :: "string \<Rightarrow> nat \<Rightarrow> nat" where
  "skip_spaces line position =
     (if position < length line \<and> line ! position = space_char
      then skip_spaces line (Suc position) else position)"
  by pat_completeness auto
termination
  by (relation "measure (\<lambda>(line, position). length line - position)") auto

text \<open>\<open>while (position < line.size() && line[position] != ' ') ++position;\<close>\<close>

function skip_token :: "string \<Rightarrow> nat \<Rightarrow> nat" where
  "skip_token line position =
     (if position < length line \<and> line ! position \<noteq> space_char
      then skip_token line (Suc position) else position)"
  by pat_completeness auto
termination
  by (relation "measure (\<lambda>(line, position). length line - position)") auto

declare skip_spaces.simps [simp del] skip_token.simps [simp del]

lemma skip_spaces_bounds: "position \<le> skip_spaces line position"
proof (induction line position rule: skip_spaces.induct)
  case (1 line position)
  then show ?case
    by (subst skip_spaces.simps) auto
qed

lemma skip_spaces_end: "position \<le> length line \<Longrightarrow> skip_spaces line position \<le> length line"
proof (induction line position rule: skip_spaces.induct)
  case (1 line position)
  then show ?case
    by (subst skip_spaces.simps) auto
qed

lemma skip_token_bounds: "position \<le> skip_token line position"
proof (induction line position rule: skip_token.induct)
  case (1 line position)
  then show ?case
    by (subst skip_token.simps) auto
qed

lemma skip_token_progress:
  "\<lbrakk>position < length line; line ! position \<noteq> space_char\<rbrakk> \<Longrightarrow> position < skip_token line position"
  using skip_token_bounds [of "Suc position" line] by (subst skip_token.simps) simp

lemma skip_spaces_stop:
  "\<lbrakk>skip_spaces line position < length line\<rbrakk> \<Longrightarrow> line ! skip_spaces line position \<noteq> space_char"
proof (induction line position rule: skip_spaces.induct)
  case (1 line position)
  then show ?case
    by (subst (asm) skip_spaces.simps, subst skip_spaces.simps) (auto split: if_splits)
qed

text \<open>
  The loop of lines 56 to 83. The result is \<open>_valid\<close> and \<open>_parameters\<close> when \<open>parse\<close>
  returns. It ends because a parameter that is not the trailing one has at least a character.
\<close>

function parse_params :: "string \<Rightarrow> nat \<Rightarrow> string list \<Rightarrow> bool \<times> string list" where
  "parse_params line position parameters =
     (if position < length line then
        let start = skip_spaces line position in
          if start = length line then (True, parameters)
          else if MAX_COMMAND_PARAMETERS \<le> length parameters then (False, parameters)
          else if line ! start = CHR '':'' then (True, parameters @ [drop (Suc start) line])
          else let next = skip_token line start in
            parse_params line next (parameters @ [substr line start (next - start)])
      else (True, parameters))"
  by pat_completeness auto
termination
proof (relation "measure (\<lambda>(line, position, parameters). length line - position)", simp, clarsimp)
  fix line :: string and position :: nat
  let ?start = "skip_spaces line position"
  assume "position < length line" "?start \<noteq> length line"
  then have "position \<le> ?start" "?start < length line"
    using skip_spaces_bounds skip_spaces_end [of position line] by (auto simp: le_less)
  then have "?start < skip_token line ?start"
    by (simp add: skip_token_progress skip_spaces_stop)
  with \<open>position < length line\<close> \<open>position \<le> ?start\<close>
  show "length line - skip_token line ?start < length line - position"
    by simp
qed

declare parse_params.simps [simp del]

text \<open>\<open>Command::Command\<close> with \<open>parse\<close>: the record starts invalid, nameless and empty.\<close>

definition parse_command :: "string \<Rightarrow> command" where
  "parse_command line =
     (let position = skip_spaces line 0;
          unset = \<lparr>cmd_valid = False, cmd_name = [], cmd_parameters = []\<rparr> in
      if position = length line then unset
      else if line ! position = CHR '':'' then unset
      else let tokenStart = position; position = skip_token line tokenStart;
               name = substr line tokenStart (position - tokenStart) in
        if name = [] then unset\<lparr>cmd_name := name\<rparr>
        else let (valid, parameters) = parse_params line position [] in
          \<lparr>cmd_valid = valid, cmd_name = normalizeName name, cmd_parameters = parameters\<rparr>)"

definition isValid :: "command \<Rightarrow> bool" where
  [accessor_defs]: "isValid cmd = cmd_valid cmd"

definition getCommandName :: "command \<Rightarrow> string" where
  [accessor_defs]: "getCommandName cmd = cmd_name cmd"

definition getParameters :: "command \<Rightarrow> string list" where
  [accessor_defs]: "getParameters cmd = cmd_parameters cmd"

definition getParameterCount :: "command \<Rightarrow> nat" where
  [accessor_defs]: "getParameterCount cmd = length (cmd_parameters cmd)"

section \<open>The parser against the grammar\<close>

text \<open>
  The parameters of the characters that are left, with room for \<open>n\<close> of them: separated by
  spaces, and a parameter that starts with a colon takes the rest of the line.
\<close>

fun reference_parameters :: "nat \<Rightarrow> string \<Rightarrow> bool \<times> string list" where
  "reference_parameters 0 cs = (dropWhile ((=) space_char) cs = [], [])"
| "reference_parameters (Suc n) cs =
     (case dropWhile ((=) space_char) cs of
        [] \<Rightarrow> (True, [])
      | c # r \<Rightarrow>
          if c = CHR '':'' then (True, [r])
          else let (valid, ps) = reference_parameters n (dropWhile ((\<noteq>) space_char) r)
               in (valid, (c # takeWhile ((\<noteq>) space_char) r) # ps))"

lemma drop_skip_spaces: "drop (skip_spaces line p) line = dropWhile ((=) space_char) (drop p line)"
proof (induction line p rule: skip_spaces.induct)
  case (1 line p)
  show ?case
  proof (cases "p < length line")
    case True
    then have "drop p line = line ! p # drop (Suc p) line"
      by (rule Cons_nth_drop_Suc [symmetric])
    with 1 True show ?thesis
      by (subst skip_spaces.simps) auto
  qed (simp add: skip_spaces.simps)
qed

lemma drop_skip_token: "drop (skip_token line p) line = dropWhile ((\<noteq>) space_char) (drop p line)"
proof (induction line p rule: skip_token.induct)
  case (1 line p)
  show ?case
  proof (cases "p < length line")
    case True
    then have "drop p line = line ! p # drop (Suc p) line"
      by (rule Cons_nth_drop_Suc [symmetric])
    with 1 True show ?thesis
      by (subst skip_token.simps) auto
  qed (simp add: skip_token.simps)
qed

lemma skip_token_end: "position \<le> length line \<Longrightarrow> skip_token line position \<le> length line"
proof (induction line position rule: skip_token.induct)
  case (1 line position)
  then show ?case
    by (subst skip_token.simps) auto
qed

lemma substr_token:
  "substr line p (skip_token line p - p) = takeWhile ((\<noteq>) space_char) (drop p line)"
proof -
  have "drop p line = substr line p (skip_token line p - p) @ dropWhile ((\<noteq>) space_char) (drop p line)"
    using append_take_drop_id [of "skip_token line p - p" "drop p line"]
    by (simp add: substr_def skip_token_bounds flip: drop_skip_token)
  then show ?thesis
    by (metis append_same_eq takeWhile_dropWhile_id)
qed

lemma token_at:
  assumes "p < length line" "line ! p \<noteq> space_char"
  shows "drop (skip_token line p) line = dropWhile ((\<noteq>) space_char) (drop (Suc p) line)"
    and "substr line p (skip_token line p - p) = line ! p # takeWhile ((\<noteq>) space_char) (drop (Suc p) line)"
  unfolding drop_skip_token substr_token Cons_nth_drop_Suc [OF assms(1), symmetric]
  using assms(2) by simp_all

lemma spaces_then:
  assumes "skip_spaces line p < length line"
  shows "dropWhile ((=) space_char) (drop p line) =
    line ! skip_spaces line p # drop (Suc (skip_spaces line p)) line"
  using Cons_nth_drop_Suc [OF assms] by (simp add: drop_skip_spaces)

lemma parse_params_reference:
  "\<lbrakk>p \<le> length line; length ps \<le> MAX_COMMAND_PARAMETERS\<rbrakk> \<Longrightarrow>
   parse_params line p ps =
     (let (valid, qs) = reference_parameters (MAX_COMMAND_PARAMETERS - length ps) (drop p line)
      in (valid, ps @ qs))"
proof (induction line p ps rule: parse_params.induct)
  case (1 line p ps)
  let ?start = "skip_spaces line p" and ?room = "MAX_COMMAND_PARAMETERS - length ps"
  have start: "drop ?start line = dropWhile ((=) space_char) (drop p line)"
    by (rule drop_skip_spaces)
  consider "p = length line" | "p < length line" "?start = length line"
    | "p < length line" "?start < length line"
    using 1(2) skip_spaces_end [of p line] by (auto simp: le_less)
  then show ?case
  proof cases
    case 1
    then show ?thesis
      by (cases ?room) (simp_all add: parse_params.simps)
  next
    case 2
    then show ?thesis
      using start by (cases ?room) (simp_all add: parse_params.simps)
  next
    case 3
    let ?c = "line ! ?start" and ?next = "skip_token line ?start"
    have cons: "dropWhile ((=) space_char) (drop p line) = ?c # drop (Suc ?start) line"
      using 3(2) by (rule spaces_then)
    have not_space: "?c \<noteq> space_char"
      using 3(2) by (rule skip_spaces_stop)
    show ?thesis
    proof (cases "MAX_COMMAND_PARAMETERS \<le> length ps")
      case True
      with 3 cons 1(3) show ?thesis
        by (subst parse_params.simps) simp
    next
      case False
      then obtain n where n: "?room = Suc n" "MAX_COMMAND_PARAMETERS - Suc (length ps) = n"
        by (metis Suc_diff_Suc not_le)
      have next_part: "drop ?next line = dropWhile ((\<noteq>) space_char) (drop (Suc ?start) line)"
        "substr line ?start (?next - ?start) = ?c # takeWhile ((\<noteq>) space_char) (drop (Suc ?start) line)"
        using token_at [OF 3(2) not_space] by simp_all
      show ?thesis
      proof (cases "?c = CHR '':''")
        case True
        with 3 False cons n show ?thesis
          by (subst parse_params.simps) simp
      next
        case colon: False
        let ?ps' = "ps @ [substr line ?start (?next - ?start)]"
        have "parse_params line ?next ?ps' =
          (let (valid, qs) = reference_parameters n (drop ?next line) in (valid, ?ps' @ qs))"
          using 1(1) [OF 3(1) refl _ _ colon refl] 3 False skip_token_end [of ?start line] n(2) by simp
        with 3 False cons n colon next_part show ?thesis
          by (subst parse_params.simps) (simp add: split: prod.split)
      qed
    qed
  qed
qed

lemma parse_command_reference:
  "parse_command line =
     (case dropWhile ((=) space_char) line of
        [] \<Rightarrow> \<lparr>cmd_valid = False, cmd_name = [], cmd_parameters = []\<rparr>
      | c # r \<Rightarrow>
          if c = CHR '':'' then \<lparr>cmd_valid = False, cmd_name = [], cmd_parameters = []\<rparr>
          else let (valid, ps) = reference_parameters MAX_COMMAND_PARAMETERS (dropWhile ((\<noteq>) space_char) r)
               in \<lparr>cmd_valid = valid, cmd_name = normalizeName (c # takeWhile ((\<noteq>) space_char) r),
                   cmd_parameters = ps\<rparr>)"
proof -
  let ?p = "skip_spaces line 0"
  have start: "drop ?p line = dropWhile ((=) space_char) line"
    using drop_skip_spaces [of line 0] by simp
  show ?thesis
  proof (cases "?p = length line")
    case True
    then show ?thesis
      using start by (simp add: parse_command_def)
  next
    case False
    then have p: "?p < length line"
      using skip_spaces_end [of 0 line] by simp
    let ?c = "line ! ?p" and ?next = "skip_token line ?p"
    have cons: "dropWhile ((=) space_char) line = ?c # drop (Suc ?p) line"
      using spaces_then [OF p] by simp
    have next_part: "drop ?next line = dropWhile ((\<noteq>) space_char) (drop (Suc ?p) line)"
      "substr line ?p (?next - ?p) = ?c # takeWhile ((\<noteq>) space_char) (drop (Suc ?p) line)"
      using token_at [OF p skip_spaces_stop [OF p]] by simp_all
    have "parse_params line ?next [] = reference_parameters MAX_COMMAND_PARAMETERS (drop ?next line)"
      using parse_params_reference [of ?next line "[]"] p skip_token_end [of ?p line] by simp
    with p cons next_part show ?thesis
      by (simp add: parse_command_def Let_def)
  qed
qed

section \<open>What a parsed command looks like\<close>

text \<open>A parameter that is not the trailing one.\<close>

definition middle_ok :: "string \<Rightarrow> bool" where
  "middle_ok p \<longleftrightarrow> p \<noteq> [] \<and> hd p \<noteq> CHR '':'' \<and> space_char \<notin> set p"

lemma set_dropWhile: "set (dropWhile P xs) \<subseteq> set xs"
  by (induction xs) auto

lemma set_takeWhile: "set (takeWhile P xs) \<subseteq> set xs"
  by (auto dest: set_takeWhileD)

lemma dropWhile_space_Cons: "dropWhile ((=) x) cs = c # r \<Longrightarrow> c \<noteq> x \<and> set (c # r) \<subseteq> set cs"
  using set_dropWhile [of "(=) x" cs] hd_dropWhile [of "(=) x" cs] by (metis list.distinct(1) list.sel(1))

lemma reference_parameters_shape:
  assumes "reference_parameters n cs = (valid, ps)"
  shows "length ps \<le> n \<and> (\<forall>p\<in>set (butlast ps). middle_ok p) \<and> (\<forall>p\<in>set ps. set p \<subseteq> set cs)"
  using assms
proof (induction n arbitrary: cs valid ps)
  case (Suc n)
  show ?case
  proof (cases "dropWhile ((=) space_char) cs")
    case (Cons c r)
    note c = dropWhile_space_Cons [OF Cons]
    show ?thesis
    proof (cases "c = CHR '':''")
      case True
      then show ?thesis
        using Suc.prems Cons c by auto
    next
      case False
      let ?token = "c # takeWhile ((\<noteq>) space_char) r" and ?after = "dropWhile ((\<noteq>) space_char) r"
      obtain v qs where q: "reference_parameters n ?after = (v, qs)"
        by fastforce
      then have ps: "ps = ?token # qs"
        using Suc.prems Cons False by simp
      have "middle_ok ?token"
        using c False by (auto simp: middle_ok_def dest: set_takeWhileD)
      moreover have "set ?token \<subseteq> set cs" "set ?after \<subseteq> set cs"
        using c set_dropWhile [of "(\<noteq>) space_char" r] set_takeWhile [of "(\<noteq>) space_char" r] by auto
      moreover note Suc.IH [OF q]
      ultimately show ?thesis
        unfolding ps by (auto, blast)
    qed
  next
    case Nil
    show ?thesis
      using Suc.prems unfolding reference_parameters.simps Nil by simp
  qed
qed simp

lemma parse_command_parameters:
  "cmd_parameters (parse_command line) = [] \<or>
   (\<exists>cs v. set cs \<subseteq> set line
      \<and> reference_parameters MAX_COMMAND_PARAMETERS cs = (v, cmd_parameters (parse_command line)))"
proof (cases "dropWhile ((=) space_char) line")
  case (Cons c r)
  let ?cs = "dropWhile ((\<noteq>) space_char) r"
  have "set ?cs \<subseteq> set line"
    using dropWhile_space_Cons [OF Cons] set_dropWhile [of "(\<noteq>) space_char" r] by auto
  moreover obtain v ps where "reference_parameters MAX_COMMAND_PARAMETERS ?cs = (v, ps)"
    by fastforce
  ultimately show ?thesis
    by (cases "c = CHR '':''") (auto simp: parse_command_reference Cons)
next
  case Nil
  then show ?thesis
    unfolding parse_command_reference Nil by simp
qed

lemma parse_command_shape:
  "length (cmd_parameters (parse_command line)) \<le> MAX_COMMAND_PARAMETERS"
  "p \<in> set (butlast (cmd_parameters (parse_command line))) \<Longrightarrow> middle_ok p"
  "p \<in> set (cmd_parameters (parse_command line)) \<Longrightarrow> set p \<subseteq> set line"
  using parse_command_parameters [of line] reference_parameters_shape by fastforce+

section \<open>Printing a command\<close>

text \<open>The usual way to write a command line, with the last parameter after a colon.\<close>

definition format_command :: "string \<Rightarrow> string list \<Rightarrow> string \<Rightarrow> string" where
  "format_command name middles trailing =
     name @ concat (map (\<lambda>p. space_char # p) middles) @ '' :'' @ trailing"

lemma reference_parameters_format:
  "\<lbrakk>\<forall>p\<in>set middles. middle_ok p; length middles < n\<rbrakk> \<Longrightarrow>
   reference_parameters n (concat (map (\<lambda>p. space_char # p) middles) @ '' :'' @ trailing) =
     (True, middles @ [trailing])"
proof (induction middles arbitrary: n)
  case Nil
  then show ?case by (cases n) auto
next
  case (Cons p ps)
  let ?rest = "concat (map (\<lambda>p. space_char # p) ps) @ '' :'' @ trailing"
  obtain m where n: "n = Suc m" using Cons.prems(2) by (cases n) auto
  obtain c q where p: "p = c # q" "c \<noteq> CHR '':''" "c \<noteq> space_char" "space_char \<notin> set q"
    using Cons.prems(1) by (cases p) (auto simp: middle_ok_def)
  obtain t where t: "?rest = space_char # t"
    by (cases ps) auto
  have "takeWhile ((\<noteq>) space_char) (q @ ?rest) = q" "dropWhile ((\<noteq>) space_char) (q @ ?rest) = ?rest"
    using p(4) unfolding t by (auto intro: takeWhile_snoc_stop dropWhile_snoc_stop)
  with Cons.IH [of m] Cons.prems p show ?case
    by (simp add: n)
qed

lemma parse_format:
  assumes "middle_ok name" "\<forall>p\<in>set middles. middle_ok p" "length middles < MAX_COMMAND_PARAMETERS"
  shows "parse_command (format_command name middles trailing) =
    \<lparr>cmd_valid = True, cmd_name = normalizeName name, cmd_parameters = middles @ [trailing]\<rparr>"
proof -
  let ?rest = "concat (map (\<lambda>p. space_char # p) middles) @ '' :'' @ trailing"
  obtain c q where name: "name = c # q" "c \<noteq> CHR '':''" "c \<noteq> space_char" "space_char \<notin> set q"
    using assms(1) by (cases name) (auto simp: middle_ok_def)
  obtain t where t: "?rest = space_char # t"
    by (cases middles) auto
  have "takeWhile ((\<noteq>) space_char) (q @ ?rest) = q" "dropWhile ((\<noteq>) space_char) (q @ ?rest) = ?rest"
    using name(4) unfolding t by (auto intro: takeWhile_snoc_stop dropWhile_snoc_stop)
  then show ?thesis
    using name reference_parameters_format [OF assms(2,3)]
    by (simp add: parse_command_reference format_command_def)
qed

section \<open>Properties\<close>

text \<open>C21: The index-based parser implements the grammar of a command line: leading spaces, a name up to
  the next space, and space-separated parameters, the last of which may start with a colon and then
  takes the rest of the line; a line without a name, or one that starts with a colon, is invalid,
  and so is one with more parameters than are allowed.\<close>

theorem parse_grammar:
  "parse_command line =
     (case dropWhile ((=) space_char) line of
        [] \<Rightarrow> \<lparr>cmd_valid = False, cmd_name = [], cmd_parameters = []\<rparr>
      | c # r \<Rightarrow>
          if c = CHR '':'' then \<lparr>cmd_valid = False, cmd_name = [], cmd_parameters = []\<rparr>
          else let (valid, ps) = reference_parameters MAX_COMMAND_PARAMETERS (dropWhile ((\<noteq>) space_char) r)
               in \<lparr>cmd_valid = valid, cmd_name = normalizeName (c # takeWhile ((\<noteq>) space_char) r),
                   cmd_parameters = ps\<rparr>)"
  by (rule parse_command_reference)

text \<open>C22: Printing a command and parsing it gives the command back, with the name in upper case: any
  number of middle parameters below the limit, and any trailing parameter, even an empty one or one
  with spaces and colons.\<close>

theorem parse_print:
  assumes "middle_ok name" "list_all middle_ok middles" "length middles < MAX_COMMAND_PARAMETERS"
  shows "parse_command (format_command name middles trailing) =
    \<lparr>cmd_valid = True, cmd_name = normalizeName name, cmd_parameters = middles @ [trailing]\<rparr>"
  using assms by (intro parse_format) (simp_all add: list_all_iff)

theorem parse_print_witness:
  "parse_command ''privmsg #room :hi: there'' =
    \<lparr>cmd_valid = True, cmd_name = normalizeName ''privmsg'', cmd_parameters = [''#room'', ''hi: there'']\<rparr>"
  using parse_print [of "''privmsg''" "[''#room'']" "''hi: there''"]
  by (simp add: middle_ok_def MAX_COMMAND_PARAMETERS_def format_command_def)

text \<open>C39: Whatever the line, the parser stays within its limit of parameters, and every parameter but
  the last is non-empty, free of spaces and does not start with a colon.\<close>

theorem parse_bounds:
  "length (getParameters (parse_command line)) \<le> MAX_COMMAND_PARAMETERS
    \<and> list_all middle_ok (butlast (getParameters (parse_command line)))"
  using parse_command_shape(1) [of line] parse_command_shape(2) [of _ line]
  by (auto simp: getParameters_def list_all_iff)

end
