(* ===== verification/Irc_Invariant.thy ===== *)
theory Irc_Invariant
  imports Irc_Output Irc_Command
begin

text \<open>
  What the server keeps true between its tables, and the rules by which the handlers keep it:
  every client is filed under its own descriptor and is registered only after PASS, NICK and USER;
  the nickname index is exactly the folded nicknames of the live clients; every channel is filed
  under its folded name, has a member, and its members are live registered clients; every
  invitation names a live client that is not a member. The locale \<open>irc_handler\<close> is the
  contract of a command handler.
\<close>

section \<open>The invariant\<close>

definition clients_ok :: "server \<Rightarrow> bool" where
  "clients_ok s \<longleftrightarrow> om_ok (s_clients s)
     \<and> (\<forall>fd c. findClient s fd = Some c \<longrightarrow> c_fd c = fd \<and> (c_registered c \<longrightarrow> isRegistrationReady c))"

definition index_ok :: "server \<Rightarrow> bool" where
  "index_ok s \<longleftrightarrow> om_ok (s_nicknameIndex s)
     \<and> (\<forall>k fd. om_find (s_nicknameIndex s) k = Some fd \<longleftrightarrow>
          (\<exists>c. findClient s fd = Some c \<and> c_nickname c \<noteq> [] \<and> ircCaseFold (c_nickname c) = k))"

definition channel_inv :: "server \<Rightarrow> string \<Rightarrow> channel \<Rightarrow> bool" where
  "channel_inv s key ch \<longleftrightarrow>
     key = ircCaseFold (ch_name ch) \<and> channel_ok ch \<and> \<not> channel_empty ch
     \<and> (\<forall>fd. hasMember ch fd \<longrightarrow> (\<exists>c. findClient s fd = Some c \<and> c_registered c))
     \<and> (\<forall>n. os_mem (ch_invitedUsers ch) n \<longrightarrow>
          (\<exists>fd. om_find (s_nicknameIndex s) n = Some fd \<and> \<not> hasMember ch fd))"

definition channels_ok :: "server \<Rightarrow> bool" where
  "channels_ok s \<longleftrightarrow> om_ok (s_channels s)
     \<and> (\<forall>key ch. om_find (s_channels s) key = Some ch \<longrightarrow> channel_inv s key ch)"

definition poll_ok :: "server \<Rightarrow> bool" where
  "poll_ok s \<longleftrightarrow> distinct (map pf_fd (s_pollFds s))
     \<and> set (map pf_fd (s_pollFds s)) = insert (s_listenerFd s) (set (om_keys (s_clients s)))
     \<and> s_listenerFd s \<notin> set (om_keys (s_clients s))"

definition fds_ok :: "server \<Rightarrow> bool" where
  "fds_ok s \<longleftrightarrow> distinct (s_openFds s)
     \<and> set (s_openFds s) = insert (s_listenerFd s) (set (om_keys (s_clients s)))
     \<and> (\<forall>fd\<in>set (s_openFds s). 0 \<le> fd)"

definition server_inv :: "server \<Rightarrow> bool" where
  "server_inv s \<longleftrightarrow> clients_ok s \<and> index_ok s \<and> channels_ok s \<and> poll_ok s \<and> fds_ok s"

lemmas inv_defs = server_inv_def clients_ok_def index_ok_def channels_ok_def poll_ok_def fds_ok_def

section \<open>Output does not matter\<close>

lemma channel_inv_cong:
  assumes "s_nicknameIndex s = s_nicknameIndex t"
    and "\<And>fd c. \<lbrakk>findClient s fd = Some c; c_registered c\<rbrakk> \<Longrightarrow> \<exists>d. findClient t fd = Some d \<and> c_registered d"
  shows "channel_inv s key ch \<Longrightarrow> channel_inv t key ch"
  using assms unfolding channel_inv_def by metis

lemma server_inv_skel_imp:
  assumes eq: "skel s = skel t" and inv: "server_inv s"
  shows "server_inv t"
proof -
  have backward: "\<exists>c. findClient s fd = Some c \<and> quiet_client c = quiet_client d"
    if "findClient t fd = Some d" for fd d
    by (rule skel_find_Some [OF eq [symmetric] that])
  have forward: "\<exists>d. findClient t fd = Some d \<and> quiet_client d = quiet_client c"
    if "findClient s fd = Some c" for fd c
    by (rule skel_find_Some [OF eq that])
  have "c_fd d = fd \<and> (c_registered d \<longrightarrow> isRegistrationReady d)" if d: "findClient t fd = Some d" for fd d
  proof -
    obtain c where "findClient s fd = Some c" and q: "quiet_client c = quiet_client d"
      using backward [OF d] by blast
    then have "c_fd c = fd \<and> (c_registered c \<longrightarrow> isRegistrationReady c)"
      using inv by (simp add: server_inv_def clients_ok_def)
    then show ?thesis
      using quiet_client_same_sel [OF q] by (simp add: isRegistrationReady_def)
  qed
  then have "clients_ok t"
    using inv by (simp add: server_inv_def clients_ok_def skel_cong(7) [OF eq])
  moreover have "(\<exists>c. findClient t fd = Some c \<and> c_nickname c \<noteq> [] \<and> ircCaseFold (c_nickname c) = k)
      = (\<exists>c. findClient s fd = Some c \<and> c_nickname c \<noteq> [] \<and> ircCaseFold (c_nickname c) = k)" for fd k
    using skel_nickname [OF eq, of fd] by (cases "findClient s fd"; cases "findClient t fd") auto
  then have "index_ok t"
    using inv by (simp add: server_inv_def index_ok_def skel_cong(3) [OF eq])
  moreover have "channel_inv t key ch" if "channel_inv s key ch" for key ch
    by (rule channel_inv_cong [OF skel_cong(3) [OF eq] _ that]) (metis forward quiet_client_same_sel(7))
  then have "channels_ok t"
    using inv by (simp add: server_inv_def channels_ok_def skel_cong(4) [OF eq])
  ultimately show ?thesis
    using inv by (simp add: server_inv_def poll_ok_def fds_ok_def skel_cong [OF eq] del: set_map)
qed

lemma server_inv_skel: "skel s = skel t \<Longrightarrow> server_inv s = server_inv t"
  using server_inv_skel_imp by metis

context output_op
begin

lemma inv: "server_inv (f s) = server_inv s"
  by (rule server_inv_skel [OF skel])

lemma keeps_nick: "findClient s fd = Some c \<Longrightarrow> \<exists>d. findClient (f s) fd = Some d
    \<and> c_nickname d = c_nickname c \<and> c_registered d = c_registered c"
  by (metis find_Some quiet_client_same_sel(1,7))

end

lemmas inv_output [simp] =
  queueLine.inv sendNumeric.inv broadcast.inv queue_to_each.inv channelNames.inv greeting.inv
  disconnect.inv

section \<open>Registration is complete as soon as it can be\<close>

text \<open>Every client that may be registered is; with one exception, in the middle of a handler.\<close>

definition complete_but :: "descriptor \<Rightarrow> server \<Rightarrow> bool" where
  "complete_but x s \<longleftrightarrow>
     (\<forall>fd c. findClient s fd = Some c \<longrightarrow> isRegistrationReady c \<longrightarrow> fd \<noteq> x \<longrightarrow> c_registered c)"

definition complete :: "server \<Rightarrow> bool" where
  "complete s \<longleftrightarrow> (\<forall>fd c. findClient s fd = Some c \<longrightarrow> isRegistrationReady c \<longrightarrow> c_registered c)"

lemma complete_complete_but: "complete s \<Longrightarrow> complete_but x s"
  by (simp add: complete_def complete_but_def)

lemma complete_skel_imp:
  assumes eq: "skel s = skel t"
  shows "complete_but x s \<Longrightarrow> complete_but x t" "complete s \<Longrightarrow> complete t"
proof -
  have source: "\<exists>c. findClient s fd = Some c \<and> c_registered c = c_registered d
      \<and> isRegistrationReady c = isRegistrationReady d" if d: "findClient t fd = Some d" for fd d
  proof -
    obtain c where "findClient s fd = Some c" "quiet_client c = quiet_client d"
      using skel_find_Some [OF eq [symmetric] d] by blast
    with quiet_client_same_sel [OF this(2)] show ?thesis
      by (simp add: isRegistrationReady_def)
  qed
  then show "complete_but x s \<Longrightarrow> complete_but x t" "complete s \<Longrightarrow> complete t"
    unfolding complete_def complete_but_def by blast+
qed

context output_op
begin

lemma complete: "complete s \<Longrightarrow> complete (f s)"
  by (rule complete_skel_imp(2) [OF skel [symmetric]])

lemma complete_but: "complete_but x s \<Longrightarrow> complete_but x (f s)"
  by (rule complete_skel_imp(1) [OF skel [symmetric]])

end

lemmas complete_output [simp] =
  queueLine.complete sendNumeric.complete broadcast.complete queue_to_each.complete
  channelNames.complete greeting.complete disconnect.complete

lemma complete_tables [simp]:
  "complete (s\<lparr>s_channels := cs\<rparr>) = complete s"
  "complete (s\<lparr>s_nicknameIndex := ix\<rparr>) = complete s"
  "complete (on_channel k f s) = complete s"
  by (simp_all add: complete_def)

section \<open>Changes of one client\<close>

lemma on_client_sel [simp]:
  "s_listenerFd (on_client fd f s) = s_listenerFd s" "s_password (on_client fd f s) = s_password s"
  "s_nicknameIndex (on_client fd f s) = s_nicknameIndex s" "s_channels (on_client fd f s) = s_channels s"
  "s_openFds (on_client fd f s) = s_openFds s" "s_pollFds (on_client fd f s) = s_pollFds s"
  "om_keys (s_clients (on_client fd f s)) = om_keys (s_clients s)"
  "om_ok (s_clients (on_client fd f s)) = om_ok (s_clients s)"
  by (simp_all add: on_client_def)

lemma server_inv_on_client:
  assumes inv: "server_inv s"
    and nick: "\<And>c. c_nickname (f c) = c_nickname c" and fd: "\<And>c. c_fd (f c) = c_fd c"
    and ready: "\<And>c. findClient s fd = Some c \<Longrightarrow> c_registered (f c) \<Longrightarrow> isRegistrationReady (f c)"
    and stays: "\<And>c. c_registered c \<Longrightarrow> c_registered (f c)"
  shows "server_inv (on_client fd f s)"
proof -
  let ?t = "on_client fd f s"
  have "channel_inv ?t key ch" if "channel_inv s key ch" for key ch
    by (rule channel_inv_cong [OF _ _ that]) (auto simp: stays)
  then have "channels_ok ?t"
    using inv by (simp add: server_inv_def channels_ok_def)
  moreover have "clients_ok ?t"
    using inv ready by (auto simp: server_inv_def clients_ok_def fd)
  moreover have "index_ok ?t"
    using inv by (auto simp: server_inv_def index_ok_def nick)
  ultimately show ?thesis
    using inv by (simp add: server_inv_def poll_ok_def fds_ok_def)
qed

section \<open>Changes of one channel\<close>

lemma on_channel_sel [simp]:
  "s_listenerFd (on_channel k f s) = s_listenerFd s" "s_password (on_channel k f s) = s_password s"
  "s_nicknameIndex (on_channel k f s) = s_nicknameIndex s" "s_clients (on_channel k f s) = s_clients s"
  "s_openFds (on_channel k f s) = s_openFds s" "s_pollFds (on_channel k f s) = s_pollFds s"
  by (simp_all add: on_channel_def)

lemma server_inv_channels:
  assumes "server_inv s" "om_ok chs"
    and "\<And>key ch. om_find chs key = Some ch \<Longrightarrow> channel_inv s key ch"
  shows "server_inv (s\<lparr>s_channels := chs\<rparr>)"
  using assms by (auto simp: inv_defs channel_inv_def)

lemma server_inv_on_channel:
  assumes inv: "server_inv s"
    and ch: "\<And>ch. \<lbrakk>om_find (s_channels s) key = Some ch; channel_inv s key ch\<rbrakk> \<Longrightarrow> channel_inv s key (f ch)"
  shows "server_inv (on_channel key f s)"
  unfolding on_channel_def
  by (rule server_inv_channels [OF inv])
    (use inv ch in \<open>auto simp: server_inv_def channels_ok_def split: if_splits\<close>)

lemma channel_inv_found: "\<lbrakk>server_inv s; findChannel s name = Some ch\<rbrakk> \<Longrightarrow> channel_inv s (ircCaseFold name) ch"
  by (simp add: server_inv_def channels_ok_def findChannel_def)

lemma client_fd_found: "\<lbrakk>server_inv s; findClient s fd = Some c\<rbrakk> \<Longrightarrow> c_fd c = fd"
  by (simp add: server_inv_def clients_ok_def)

lemma nickname_found:
  assumes "server_inv s" "findClientByNickname s n = Some c"
  shows "findClient s (c_fd c) = Some c" "om_find (s_nicknameIndex s) (ircCaseFold n) = Some (c_fd c)"
proof -
  obtain fd where fd: "om_find (s_nicknameIndex s) (ircCaseFold n) = Some fd" "findClient s fd = Some c"
    using assms(2) by (auto simp: findClientByNickname_def split: option.splits)
  with client_fd_found [OF assms(1) fd(2)]
  show "findClient s (c_fd c) = Some c" "om_find (s_nicknameIndex s) (ircCaseFold n) = Some (c_fd c)"
    by auto
qed

lemma nickname_owner:
  assumes "server_inv s" "findClient s fd = Some c" "c_nickname c \<noteq> []"
  shows "om_find (s_nicknameIndex s) (ircCaseFold (c_nickname c)) = Some fd"
  using assms unfolding server_inv_def index_ok_def by blast

section \<open>The contract of a handler\<close>

text \<open>
  What \<open>dispatchCommand\<close> and the read loop need of each handler: called for a live
  client, it keeps the invariant and the output bound, and it neither creates nor destroys a
  client object (so the \<open>Client &\<close> of the caller stays valid), nor touches the descriptor
  table, the poll list's descriptors or any input buffer.
\<close>

definition same_objects :: "server \<Rightarrow> server \<Rightarrow> bool" where
  "same_objects s t \<longleftrightarrow>
     om_keys (s_clients t) = om_keys (s_clients s) \<and> s_listenerFd t = s_listenerFd s
     \<and> s_password t = s_password s \<and> s_openFds t = s_openFds s
     \<and> map pf_fd (s_pollFds t) = map pf_fd (s_pollFds s)
     \<and> (\<forall>fd. map_option c_inputBuffer (findClient t fd) = map_option c_inputBuffer (findClient s fd))"

lemma same_objects_refl [simp]: "same_objects s s"
  by (simp add: same_objects_def)

lemma same_objects_trans: "\<lbrakk>same_objects s t; same_objects t u\<rbrakk> \<Longrightarrow> same_objects s u"
  by (simp add: same_objects_def)

lemma same_objects_skel:
  assumes "skel s = skel t"
  shows "same_objects s t"
proof -
  have "map_option c_inputBuffer (findClient t fd) = map_option c_inputBuffer (findClient s fd)" for fd
    using arg_cong [OF skel_cong(9) [OF assms, of fd], of "map_option c_inputBuffer"]
    by (simp add: option.map_comp comp_def)
  then show ?thesis
    using skel_cong [OF assms] by (simp add: same_objects_def)
qed

lemma same_objects_on_client:
  "(\<And>c. c_inputBuffer (f c) = c_inputBuffer c) \<Longrightarrow> same_objects s (on_client fd f s)"
  by (auto simp: same_objects_def option.map_comp comp_def)

lemma same_objects_on_channel: "same_objects s (on_channel k f s)"
  by (simp add: same_objects_def)

lemma same_objects_tables: "same_objects s (s\<lparr>s_channels := cs\<rparr>)" "same_objects s (s\<lparr>s_nicknameIndex := ix\<rparr>)"
  by (simp_all add: same_objects_def findClient_def)

lemma same_objects_live: "same_objects s t \<Longrightarrow> findClient t fd = None \<longleftrightarrow> findClient s fd = None"
  by (simp add: same_objects_def findClient_def om_find_None_iff)

context output_op
begin

lemma same_objects: "same_objects s (f s)"
  by (rule same_objects_skel [OF skel [symmetric]])

lemma same_objects_after: "same_objects r s \<Longrightarrow> same_objects r (f s)"
  using same_objects same_objects_trans by blast

end

lemmas same_objects_output [simp] =
  queueLine.same_objects_after sendNumeric.same_objects_after broadcast.same_objects_after
  queue_to_each.same_objects_after channelNames.same_objects_after greeting.same_objects_after
  disconnect.same_objects_after

lemma same_objects_steps [simp]:
  "same_objects r s \<Longrightarrow> same_objects r (on_channel k g s)"
  "same_objects r s \<Longrightarrow> (\<And>c. c_inputBuffer (f c) = c_inputBuffer c) \<Longrightarrow> same_objects r (on_client fd f s)"
  "same_objects r s \<Longrightarrow> same_objects r (s\<lparr>s_channels := cs\<rparr>)"
  "same_objects r s \<Longrightarrow> same_objects r (s\<lparr>s_nicknameIndex := ix\<rparr>)"
  using same_objects_on_channel same_objects_on_client same_objects_tables same_objects_trans by blast+

locale irc_handler =
  fixes h :: "server \<Rightarrow> descriptor \<Rightarrow> command \<Rightarrow> server"
  assumes inv: "\<lbrakk>server_inv s; findClient s fd \<noteq> None\<rbrakk> \<Longrightarrow> server_inv (h s fd cmd)"
    and bounded: "output_ok s \<Longrightarrow> output_ok (h s fd cmd)"
    and complete: "complete s \<Longrightarrow> complete (h s fd cmd)"
    and same_objects: "same_objects s (h s fd cmd)"
begin

lemma live: "findClient (h s fd cmd) g = None \<longleftrightarrow> findClient s g = None"
  by (rule same_objects_live [OF same_objects])

lemma open_fds: "s_openFds (h s fd cmd) = s_openFds s"
  using same_objects by (simp add: same_objects_def)

lemma poll_fds: "map pf_fd (s_pollFds (h s fd cmd)) = map pf_fd (s_pollFds s)"
  using same_objects by (simp add: same_objects_def)

lemma input: "map_option c_inputBuffer (findClient (h s fd cmd) g) = map_option c_inputBuffer (findClient s g)"
  using same_objects by (simp add: same_objects_def)

end

section \<open>The output queues\<close>

lemma findClient_queueLine_other:
  "g \<noteq> fd \<or> findClient s fd = None \<Longrightarrow> findClient (queue_line s fd line) g = findClient s g"
  by (auto simp: queueLine_def queueRaw_def Let_def split: if_splits)

locale bounded_op = output_op +
  assumes bounded: "output_ok s \<Longrightarrow> output_ok (f s)"

lemma output_armed:
  "\<lbrakk>server_inv s; output_ok s; findClient s fd = Some c; c_outputBuffer c \<noteq> []\<rbrakk> \<Longrightarrow> armed (s_pollFds s) fd"
  using client_fd_found unfolding output_ok_def by metis

lemma queueLine_dead: "findClient s fd = None \<Longrightarrow> output_ok s \<Longrightarrow> output_ok (queue_line s fd line)"
proof -
  assume dead: "findClient s fd = None" and ok: "output_ok s"
  have find: "findClient (queue_line s fd line) = findClient s"
    using dead by (simp add: fun_eq_iff findClient_queueLine_other)
  have "s_pollFds (queue_line s fd line) = s_pollFds s
      \<or> s_pollFds (queue_line s fd line) = enable_pollout (getFd (client_at s fd)) (s_pollFds s)"
    by (auto simp: queueLine_def queueRaw_def Let_def on_client_def)
  with ok show ?thesis
    by (auto simp: output_ok_def find armed_enable)
qed

lemma queueLine_bounded: "output_ok s \<Longrightarrow> output_ok (queue_line s fd line)"
  using queueLine_dead output_ok_queueLine by blast

lemma sendNumeric_bounded: "output_ok s \<Longrightarrow> output_ok (send_numeric s fd numeric arguments)"
  by (simp add: sendNumeric_def Let_def queueLine_bounded)

lemma broadcast_loop_bounded: "output_ok s \<Longrightarrow> output_ok (broadcast_loop ms message ex s)"
  by (induction ms message ex s rule: broadcast_loop.induct)
    (auto simp: queueLine_bounded split: option.split)

lemma queue_to_each_bounded: "output_ok s \<Longrightarrow> output_ok (queue_to_each fds message s)"
  by (induction fds message s rule: queue_to_each.induct)
    (auto simp: queueLine_bounded split: option.split)

interpretation queueLine: bounded_op "\<lambda>s. queue_line s fd line" for fd line
  by unfold_locales (rule queueLine_bounded)

interpretation sendNumeric: bounded_op "\<lambda>s. send_numeric s fd numeric arguments" for fd numeric arguments
  by unfold_locales (rule sendNumeric_bounded)

interpretation broadcast: bounded_op "\<lambda>s. broadcastToChannel s channel message ex" for channel message ex
  by unfold_locales (simp add: broadcastToChannel_def broadcast_loop_bounded)

interpretation queue_to_each: bounded_op "\<lambda>s. queue_to_each fds message s" for fds message
  by unfold_locales (rule queue_to_each_bounded)

interpretation channelNames: bounded_op "\<lambda>s. sendChannelNames s fd channel" for fd channel
  by unfold_locales (simp add: sendChannelNames_def Let_def sendNumeric_bounded)

interpretation greeting: bounded_op "\<lambda>s. SendWelcome s fd" for fd
  by unfold_locales (simp add: SendWelcome_def Let_def sendNumeric_bounded)

lemma bounded_on_client:
  assumes "\<And>c. length (c_outputBuffer (f c)) \<le> length (c_outputBuffer c)" "\<And>c. c_fd (f c) = c_fd c"
    and ok: "output_ok s"
  shows "output_ok (on_client fd f s)"
proof -
  have "c_outputBuffer (f c) \<noteq> [] \<Longrightarrow> c_outputBuffer c \<noteq> []" for c
    using assms(1) [of c] by auto
  then show ?thesis
    using ok assms(1,2) order_trans unfolding output_ok_def by (auto split: if_splits) blast
qed

interpretation disconnect: bounded_op "\<lambda>s. on_client fd (requestDisconnect reason) s" for fd reason
  by unfold_locales (rule bounded_on_client; simp add: requestDisconnect_def)

lemma bounded_tables [simp]:
  "output_ok (s\<lparr>s_channels := cs\<rparr>) = output_ok s"
  "output_ok (s\<lparr>s_nicknameIndex := ix\<rparr>) = output_ok s"
  "output_ok (on_channel k f s) = output_ok s"
  by (simp_all add: output_ok_def)

lemmas bounded_output [simp] =
  queueLine.bounded sendNumeric.bounded broadcast.bounded queue_to_each.bounded channelNames.bounded
  greeting.bounded disconnect.bounded

end
