(* ===== verification/Irc_Register.thy ===== *)
theory Irc_Register
  imports Irc_Invariant
begin

text \<open>
  The connection and registration commands: \<open>Cap.cpp\<close>, \<open>Ping.cpp\<close>, \<open>Quit.cpp\<close>,
  \<open>Pass.cpp\<close>, \<open>User.cpp\<close>, \<open>Nick.cpp\<close> under \<open>srcs/Command\<close>, with
  \<open>tryCompleteRegistration\<close> and \<open>handleUnknownCommand\<close> of
  \<open>srcs/Server/ServerCommand.cpp\<close>. Each handler is shown to meet the contract
  \<open>irc_handler\<close>.
\<close>

section \<open>CAP, PING, QUIT, unknown commands\<close>

definition handleCap :: "server \<Rightarrow> descriptor \<Rightarrow> command \<Rightarrow> server" where
  "handleCap s fd cmd =
     (let parameters = getParameters cmd in
      if parameters = [] then s
      else if parameters ! 0 = ''LS'' then queue_line s fd '':ircserv CAP * LS''
      else if parameters ! 0 = ''REQ'' then
        let requested = (if 2 \<le> length parameters then parameters ! 1 else [])
        in queue_line s fd ('':ircserv CAP * NAK '' @ requested)
      else s)"

definition SERVER_NAME :: string where
  "SERVER_NAME = ''ircserv''"

definition handlePing :: "server \<Rightarrow> descriptor \<Rightarrow> command \<Rightarrow> server" where
  "handlePing s fd cmd =
     (if getParameterCount cmd = 0 then queue_line s fd '':ircserv 409 * :No origin specified''
      else queue_line s fd
        ('':'' @ SERVER_NAME @ '' PONG '' @ SERVER_NAME @ '' :'' @ getParameters cmd ! 0))"

definition handleQuit :: "server \<Rightarrow> descriptor \<Rightarrow> command \<Rightarrow> server" where
  "handleQuit s fd cmd =
     (let reason = (if 1 \<le> getParameterCount cmd then getParameters cmd ! 0 else ''Client Quit'')
      in on_client fd (requestDisconnect reason) s)"

definition handleUnknownCommand :: "server \<Rightarrow> descriptor \<Rightarrow> command \<Rightarrow> server" where
  "handleUnknownCommand s fd cmd =
     send_numeric s fd ''421'' (getCommandName cmd @ '' :Unknown command'')"

section \<open>Registration\<close>

definition tryCompleteRegistration :: "server \<Rightarrow> descriptor \<Rightarrow> server" where
  "tryCompleteRegistration s fd =
     (if isRegistered (client_at s fd) then s
      else if \<not> isRegistrationReady (client_at s fd) then s
      else SendWelcome (on_client fd (setRegistered True) s) fd)"

definition handlePass :: "server \<Rightarrow> descriptor \<Rightarrow> command \<Rightarrow> server" where
  "handlePass s fd cmd =
     (if isRegistered (client_at s fd) then send_numeric s fd ''462'' '':You may not reregister''
      else if getParameterCount cmd < 1 then send_numeric s fd ''461'' ''PASS :Not enough parameters''
      else if getParameters cmd ! 0 \<noteq> s_password s then send_numeric s fd ''464'' '':Password incorrect''
      else tryCompleteRegistration (on_client fd setPasswordAccepted s) fd)"

definition handleUser :: "server \<Rightarrow> descriptor \<Rightarrow> command \<Rightarrow> server" where
  "handleUser s fd cmd =
     (if isRegistered (client_at s fd) then send_numeric s fd ''462'' '':You may not reregister''
      else if getParameterCount cmd < 4 then send_numeric s fd ''461'' ''USER :Not enough parameters''
      else let parameters = getParameters cmd in
        tryCompleteRegistration (on_client fd (setUser (parameters ! 0) (parameters ! 3)) s) fd)"

section \<open>NICK\<close>

text \<open>Lines 97 to 103: every member of a channel becomes a recipient.\<close>

fun insert_members :: "member_map \<Rightarrow> descriptor oset \<Rightarrow> descriptor oset" where
  "insert_members [] recipients = recipients"
| "insert_members ((fd, m) # members) recipients = insert_members members (os_insert fd recipients)"

text \<open>Lines 84 to 104: the clients that share a channel with \<open>fd\<close>.\<close>

fun nick_recipients :: "descriptor \<Rightarrow> (string, channel) omap \<Rightarrow> descriptor oset \<Rightarrow> descriptor oset" where
  "nick_recipients fd [] recipients = recipients"
| "nick_recipients fd ((key, channel) # channels) recipients =
     nick_recipients fd channels
       (if \<not> hasMember channel fd then recipients
        else insert_members (getMembers channel) recipients)"

text \<open>Lines 113 to 119, for one channel.\<close>

definition rename_invite :: "string \<Rightarrow> string \<Rightarrow> channel \<Rightarrow> channel" where
  "rename_invite oldNickname nickname channel =
     (if isInvited channel oldNickname then addInvite nickname (removeInvite oldNickname channel)
      else channel)"

text \<open>Lines 107 to 128: invitations, index and client move to the new nickname.\<close>

definition change_nickname :: "server \<Rightarrow> descriptor \<Rightarrow> string \<Rightarrow> server" where
  "change_nickname s fd nickname =
     (let client = client_at s fd;
          oldNickname = getNickname client;
          s1 = (if hasNickname client
                then s\<lparr>s_channels := om_map (rename_invite oldNickname nickname) (s_channels s),
                       s_nicknameIndex := om_erase (ircCaseFold oldNickname) (s_nicknameIndex s)\<rparr>
                else s);
          s2 = on_client fd (setNickname nickname) s1
      in s2\<lparr>s_nicknameIndex := om_put (ircCaseFold nickname) (getFd client) (s_nicknameIndex s2)\<rparr>)"

definition handleNick :: "server \<Rightarrow> descriptor \<Rightarrow> command \<Rightarrow> server" where
  "handleNick s fd cmd =
     (if getParameterCount cmd < 1 then send_numeric s fd ''431'' '':No nickname given''
      else let nickname = getParameters cmd ! 0; client = client_at s fd in
        if \<not> isValidNickname nickname
          then send_numeric s fd ''432'' (nickname @ '' :Erroneous nickname'')
        else if (case om_find (s_nicknameIndex s) (ircCaseFold nickname) of
                   None \<Rightarrow> False
                 | Some owner \<Rightarrow> owner \<noteq> getFd client)
          then send_numeric s fd ''433'' (nickname @ '' :Nickname is already in use'')
        else if hasNickname client \<and> getNickname client = nickname then s
        else
          let wasRegistered = isRegistered client;
              oldPrefix = (if hasNickname client \<and> wasRegistered then getPrefix client else []);
              recipients = (if hasNickname client \<and> wasRegistered
                            then nick_recipients (getFd client) (s_channels s) (os_insert (getFd client) [])
                            else []);
              s1 = change_nickname s fd nickname;
              nickMessage = '':'' @ oldPrefix @ '' NICK :'' @ nickname;
              s2 = (if wasRegistered then queue_to_each recipients nickMessage s1 else s1)
          in tryCompleteRegistration s2 fd)"

section \<open>The recipients of a NICK\<close>

lemma insert_members_keys [simp]:
  "set (om_keys (insert_members ms r)) = set (om_keys ms) \<union> set (om_keys r)"
  by (induction ms r rule: insert_members.induct) auto

lemma insert_members_ok: "om_ok r \<Longrightarrow> om_ok (insert_members ms r)"
  by (induction ms r rule: insert_members.induct) auto

lemma nick_recipients_ok: "om_ok r \<Longrightarrow> om_ok (nick_recipients fd chs r)"
  by (induction fd chs r rule: nick_recipients.induct) (auto simp: insert_members_ok)

lemma nick_recipients_keys:
  "g \<in> set (om_keys (nick_recipients fd chs r)) \<longleftrightarrow>
     g \<in> set (om_keys r) \<or> (\<exists>(k, ch)\<in>set chs. hasMember ch fd \<and> hasMember ch g)"
  by (induction fd chs r rule: nick_recipients.induct)
    (auto simp: getMembers_def hasMember_def om_find_None_iff)

section \<open>The invariant\<close>

lemma findClient_change_nickname:
  "findClient s fd = Some c \<Longrightarrow> findClient (change_nickname s fd n) g =
     (if g = fd then Some (setNickname n c) else findClient s g)"
  by (simp add: change_nickname_def Let_def client_at_def findClient_def on_client_def)

lemma index_change_nickname:
  "\<lbrakk>server_inv s; findClient s fd = Some c\<rbrakk> \<Longrightarrow> om_find (s_nicknameIndex (change_nickname s fd n)) k =
     (if k = ircCaseFold n then Some fd
      else if c_nickname c \<noteq> [] \<and> k = ircCaseFold (c_nickname c) then None
      else om_find (s_nicknameIndex s) k)"
  by (simp add: change_nickname_def Let_def client_at_def client_fd_found accessor_defs)

lemma rename_invite_sel [simp]:
  "ch_name (rename_invite o' n ch) = ch_name ch" "hasMember (rename_invite o' n ch) = hasMember ch"
  "channel_ok ch \<Longrightarrow> channel_ok (rename_invite o' n ch)"
  "channel_empty (rename_invite o' n ch) = channel_empty ch"
  "ch_members (rename_invite o' n ch) = ch_members ch"
  by (simp_all add: rename_invite_def channel_ok_ops channel_empty_def)

lemma invited_rename:
  "os_mem (ch_invitedUsers (rename_invite o' n ch)) k \<longleftrightarrow>
     (if os_mem (ch_invitedUsers ch) (ircCaseFold o')
      then k = ircCaseFold n \<or> k \<noteq> ircCaseFold o' \<and> os_mem (ch_invitedUsers ch) k
      else os_mem (ch_invitedUsers ch) k)"
  by (auto simp: rename_invite_def isInvited_def addInvite_def removeInvite_def)

lemma channel_inv_change_nickname:
  assumes inv: "server_inv s" and c: "findClient s fd = Some c"
    and free: "om_find (s_nicknameIndex s) (ircCaseFold n) \<in> {None, Some fd}"
    and old: "c_nickname c \<noteq> []" and ch: "channel_inv s key ch"
  shows "channel_inv (change_nickname s fd n) key (rename_invite (c_nickname c) n ch)"
proof -
  let ?old = "ircCaseFold (c_nickname c)" and ?ix = "om_find (s_nicknameIndex s)"
  have owner: "?ix ?old = Some fd"
    by (rule nickname_owner [OF inv c old])
  have "\<exists>g. om_find (s_nicknameIndex (change_nickname s fd n)) k = Some g \<and> \<not> hasMember ch g"
    if k: "os_mem (ch_invitedUsers (rename_invite (c_nickname c) n ch)) k" for k
  proof (cases "k = ircCaseFold n")
    case True
    then have "\<not> hasMember ch fd"
      using k ch owner free unfolding channel_inv_def invited_rename
      by (auto split: if_splits)
    with True show ?thesis
      by (simp add: index_change_nickname [OF inv c])
  next
    case False
    then have "os_mem (ch_invitedUsers ch) k" "k \<noteq> ?old"
      using k by (auto simp: invited_rename split: if_splits)
    then show ?thesis
      using ch False by (simp add: index_change_nickname [OF inv c] channel_inv_def)
  qed
  then show ?thesis
    using ch c by (auto simp: channel_inv_def findClient_change_nickname [OF c] accessor_defs)
qed

lemma channel_inv_first_nickname:
  assumes inv: "server_inv s" and c: "findClient s fd = Some c"
    and free: "om_find (s_nicknameIndex s) (ircCaseFold n) \<in> {None, Some fd}"
    and old: "c_nickname c = []" and ch: "channel_inv s key ch"
  shows "channel_inv (change_nickname s fd n) key ch"
  using ch c free
  by (auto simp: channel_inv_def findClient_change_nickname [OF c] accessor_defs
      index_change_nickname [OF inv c] old)

lemma change_nickname_sel [simp]:
  "s_listenerFd (change_nickname s fd n) = s_listenerFd s" "s_openFds (change_nickname s fd n) = s_openFds s"
  "s_pollFds (change_nickname s fd n) = s_pollFds s" "s_password (change_nickname s fd n) = s_password s"
  "om_keys (s_clients (change_nickname s fd n)) = om_keys (s_clients s)"
  "s_channels (change_nickname s fd n) = (if hasNickname (client_at s fd)
     then om_map (rename_invite (getNickname (client_at s fd)) n) (s_channels s) else s_channels s)"
  by (simp_all add: change_nickname_def Let_def)

lemma server_inv_change_nickname:
  assumes inv: "server_inv s" and c: "findClient s fd = Some c" and n: "n \<noteq> []"
    and free: "om_find (s_nicknameIndex s) (ircCaseFold n) \<in> {None, Some fd}"
  shows "server_inv (change_nickname s fd n)"
proof -
  let ?t = "change_nickname s fd n"
  have "clients_ok ?t"
    using inv n c
    by (auto simp: server_inv_def clients_ok_def findClient_change_nickname [OF c] accessor_defs om_ok_def)
  moreover have "(om_find (s_nicknameIndex ?t) k = Some g) \<longleftrightarrow>
      (\<exists>d. findClient ?t g = Some d \<and> c_nickname d \<noteq> [] \<and> ircCaseFold (c_nickname d) = k)" for k g
  proof (cases "g = fd")
    case True
    have "c_nickname c \<noteq> [] \<and> ircCaseFold (c_nickname c) = k" if "om_find (s_nicknameIndex s) k = Some fd"
      using inv c that unfolding server_inv_def index_ok_def by fastforce
    with True n show ?thesis
      by (auto simp: index_change_nickname [OF inv c] findClient_change_nickname [OF c] accessor_defs)
  next
    case False
    have "(om_find (s_nicknameIndex s) k = Some g) \<longleftrightarrow>
        (\<exists>d. findClient s g = Some d \<and> c_nickname d \<noteq> [] \<and> ircCaseFold (c_nickname d) = k)"
      using inv unfolding server_inv_def index_ok_def by blast
    moreover have "om_find (s_nicknameIndex s) (ircCaseFold n) \<noteq> Some g"
      using free False by auto
    ultimately show ?thesis
      using False nickname_owner [OF inv c]
      by (auto simp: index_change_nickname [OF inv c] findClient_change_nickname [OF c])
  qed
  then have "index_ok ?t"
    using inv by (simp add: index_ok_def server_inv_def) (simp add: change_nickname_def Let_def)
  moreover have "channels_ok ?t"
    using inv channel_inv_change_nickname [OF inv c free] channel_inv_first_nickname [OF inv c free] c
    by (auto simp: server_inv_def channels_ok_def client_at_def accessor_defs)
  ultimately show ?thesis
    using inv by (simp add: server_inv_def poll_ok_def fds_ok_def)
qed

lemma same_objects_change_nickname: "same_objects s (change_nickname s fd n)"
  by (auto simp: change_nickname_def Let_def accessor_defs)

lemma bounded_change_nickname: "output_ok s \<Longrightarrow> output_ok (change_nickname s fd n)"
  by (auto simp: change_nickname_def Let_def accessor_defs intro!: bounded_on_client)

section \<open>Registration keeps the invariant\<close>

lemma server_inv_tryComplete:
  assumes "server_inv s" "findClient s fd \<noteq> None"
  shows "server_inv (tryCompleteRegistration s fd)"
  using assms server_inv_on_client [OF assms(1), of "setRegistered True" fd]
  by (auto simp: tryCompleteRegistration_def client_at_def accessor_defs)

lemma same_objects_tryComplete: "same_objects r s \<Longrightarrow> same_objects r (tryCompleteRegistration s fd)"
  by (simp add: tryCompleteRegistration_def setRegistered_def)

lemma bounded_tryComplete: "output_ok s \<Longrightarrow> output_ok (tryCompleteRegistration s fd)"
  by (simp add: tryCompleteRegistration_def bounded_on_client setRegistered_def)

lemma complete_tryComplete:
  assumes "complete_but fd s"
  shows "complete (tryCompleteRegistration s fd)"
proof -
  have "complete s" if "c_registered (client_at s fd) \<or> \<not> isRegistrationReady (client_at s fd)"
    using assms that unfolding complete_def complete_but_def client_at_def by (metis option.sel)
  moreover have "complete (on_client fd (setRegistered True) s)"
    using assms unfolding complete_def complete_but_def by (auto simp: setRegistered_def split: if_splits)
  ultimately show ?thesis
    by (auto simp: tryCompleteRegistration_def isRegistered_def)
qed

lemma complete_but_change:
  "complete s \<Longrightarrow> complete_but fd (on_client fd f s)"
  "complete s \<Longrightarrow> complete_but fd (change_nickname s fd n)"
  unfolding complete_def complete_but_def
  by (auto simp: change_nickname_def Let_def findClient_def on_client_def split: if_splits)

lemma server_inv_password:
  "server_inv s \<Longrightarrow> server_inv (on_client fd setPasswordAccepted s)"
  by (rule server_inv_on_client) (auto simp: accessor_defs server_inv_def clients_ok_def)

lemma server_inv_user:
  "server_inv s \<Longrightarrow> server_inv (on_client fd (setUser u r) s)"
  by (rule server_inv_on_client) (auto simp: accessor_defs server_inv_def clients_ok_def)

lemma isValidNickname_neq_Nil: "isValidNickname n \<Longrightarrow> n \<noteq> []"
  by (auto simp: isValidNickname_def)

interpretation cap: irc_handler handleCap
  by unfold_locales (auto simp: handleCap_def Let_def)

interpretation ping: irc_handler handlePing
  by unfold_locales (auto simp: handlePing_def)

interpretation quit: irc_handler handleQuit
  by unfold_locales (auto simp: handleQuit_def Let_def)

interpretation unknown: irc_handler handleUnknownCommand
  by unfold_locales (auto simp: handleUnknownCommand_def)

interpretation pass: irc_handler handlePass
  by unfold_locales
    (auto simp: handlePass_def server_inv_tryComplete server_inv_password same_objects_tryComplete
      bounded_tryComplete bounded_on_client complete_tryComplete complete_but_change setPasswordAccepted_def)

interpretation user: irc_handler handleUser
  by unfold_locales
    (auto simp: handleUser_def Let_def server_inv_tryComplete server_inv_user same_objects_tryComplete
      bounded_tryComplete bounded_on_client complete_tryComplete complete_but_change setUser_def)

lemma handleNick_inv:
  assumes "server_inv s" "findClient s fd \<noteq> None"
  shows "server_inv (handleNick s fd cmd)"
proof -
  obtain c where c: "findClient s fd = Some c" using assms(2) by blast
  have "server_inv (change_nickname s fd n)"
    if "isValidNickname n" "\<not> (case om_find (s_nicknameIndex s) (ircCaseFold n) of
        None \<Rightarrow> False | Some owner \<Rightarrow> owner \<noteq> getFd (client_at s fd))" for n
    using that server_inv_change_nickname [OF assms(1) c isValidNickname_neq_Nil] client_fd_found [OF assms(1) c]
    by (auto simp: client_at_def c getFd_def split: option.splits)
  then show ?thesis
    using assms c
    by (auto simp: handleNick_def Let_def findClient_change_nickname [OF c] intro!: server_inv_tryComplete)
qed

interpretation nick: irc_handler handleNick
proof unfold_locales
  show "output_ok s \<Longrightarrow> output_ok (handleNick s fd cmd)" for s fd cmd
    by (simp add: handleNick_def Let_def bounded_tryComplete bounded_change_nickname)
  show "complete s \<Longrightarrow> complete (handleNick s fd cmd)" for s fd cmd
    by (simp add: handleNick_def Let_def complete_tryComplete complete_but_change queue_to_each.complete_but)
  show "same_objects s (handleNick s fd cmd)" for s fd cmd
    by (simp add: handleNick_def Let_def same_objects_tryComplete same_objects_change_nickname)
qed (rule handleNick_inv)

end
