(* ===== verification/Irc_Channel_Commands.thy ===== *)
theory Irc_Channel_Commands
  imports Irc_Invariant
begin

text \<open>
  The messaging and channel commands: \<open>Privmsg.cpp\<close>, \<open>Join.cpp\<close>, \<open>Topic.cpp\<close>,
  \<open>Kick.cpp\<close> and \<open>Invite.cpp\<close> under \<open>srcs/Command\<close>, with
  \<open>removeMemberFromChannel\<close> of \<open>srcs/Server/Server.cpp\<close>. Each handler is shown to meet
  the contract \<open>irc_handler\<close>.
\<close>

section \<open>PRIVMSG\<close>

definition channel_prefix :: "string \<Rightarrow> bool" where
  "channel_prefix name \<longleftrightarrow> char_at name 0 = CHR ''#'' \<or> char_at name 0 = CHR ''&''"

definition handlePrivmsg :: "server \<Rightarrow> descriptor \<Rightarrow> command \<Rightarrow> server" where
  "handlePrivmsg s fd cmd =
     (let client = client_at s fd; parameters = getParameters cmd in
      if \<not> isRegistered client then send_numeric s fd ''451'' '':You have not registered''
      else if parameters = [] then send_numeric s fd ''411'' '':No recipient given (PRIVMSG)''
      else if length parameters < 2 then send_numeric s fd ''412'' '':No text to send''
      else let targetName = parameters ! 0 in
        if channel_prefix targetName then
          (case findChannel s targetName of
             None \<Rightarrow> send_numeric s fd ''401'' (targetName @ '' :No such nick/channel'')
           | Some channel \<Rightarrow>
               if \<not> hasMember channel (getFd client)
               then send_numeric s fd ''404'' (targetName @ '' :Cannot send to channel'')
               else broadcastToChannel s channel
                 ('':'' @ getPrefix client @ '' PRIVMSG '' @ targetName @ '' :'' @ parameters ! 1)
                 (getFd client))
        else
          (case findClientByNickname s targetName of
             None \<Rightarrow> send_numeric s fd ''401'' (targetName @ '' :No such nick/channel'')
           | Some target \<Rightarrow>
               queue_line s (getFd target)
                 ('':'' @ getPrefix client @ '' PRIVMSG '' @ getNickname target @ '' :'' @ parameters ! 1)))"

section \<open>JOIN\<close>

definition channel_at :: "server \<Rightarrow> string \<Rightarrow> channel" where
  "channel_at s key = the (om_find (s_channels s) key)"

text \<open>Lines 102 to 109: the replies after the membership change.\<close>

definition join_replies :: "server \<Rightarrow> descriptor \<Rightarrow> string \<Rightarrow> server" where
  "join_replies s fd key =
     (let channel = channel_at s key;
          joinMessage = '':'' @ getPrefix (client_at s fd) @ '' JOIN :'' @ getName channel;
          s1 = broadcastToChannel s channel joinMessage no_exclusion;
          s2 = (if hasTopic channel
                then send_numeric s1 fd ''332'' (getName channel @ '' :'' @ getTopic channel)
                else send_numeric s1 fd ''331'' (getName channel @ '' :No topic is set''))
      in sendChannelNames s2 fd channel)"

definition handleJoin :: "server \<Rightarrow> descriptor \<Rightarrow> command \<Rightarrow> server" where
  "handleJoin s fd cmd =
     (let client = client_at s fd in
      if \<not> isRegistered client then send_numeric s fd ''451'' '':You have not registered''
      else if getParameterCount cmd < 1 then send_numeric s fd ''461'' ''JOIN :Not enough parameters''
      else let channelName = getParameters cmd ! 0; key = ircCaseFold channelName in
        if channelName = [] \<or> (channelName ! 0 \<noteq> CHR ''#'' \<and> channelName ! 0 \<noteq> CHR ''&'')
        then send_numeric s fd ''403'' (channelName @ '' :No such channel'')
        else (case findChannel s channelName of
          None \<Rightarrow>
            let s1 = s\<lparr>s_channels := om_put key (new_channel channelName) (s_channels s)\<rparr>;
                s2 = on_channel key (\<lambda>ch. snd (addMember (getFd client) True ch)) s1
            in join_replies s2 fd key
        | Some channel \<Rightarrow>
            if hasMember channel (getFd client) then s
            else if isInviteOnly channel \<and> \<not> isInvited channel (getNickname client)
            then send_numeric s fd ''473'' (getName channel @ '' :Cannot join channel (+i)'')
            else let suppliedKey = (if 2 \<le> getParameterCount cmd then getParameters cmd ! 1 else []) in
              if hasKey channel \<and> suppliedKey \<noteq> getKey channel
              then send_numeric s fd ''475'' (getName channel @ '' :Cannot join channel (+k)'')
              else if hasUserLimit channel \<and> unat (getUserLimit channel) \<le> getMemberCount channel
              then send_numeric s fd ''471'' (getName channel @ '' :Cannot join channel (+l)'')
              else let s1 = on_channel key (\<lambda>ch. snd (addMember (getFd client) False ch)) s;
                       s2 = on_channel key (removeInvite (getNickname client)) s1
                in join_replies s2 fd key))"

section \<open>TOPIC\<close>

definition handleTopic :: "server \<Rightarrow> descriptor \<Rightarrow> command \<Rightarrow> server" where
  "handleTopic s fd cmd =
     (let client = client_at s fd in
      if \<not> isRegistered client then send_numeric s fd ''451'' '':You have not registered''
      else if getParameterCount cmd < 1 then send_numeric s fd ''461'' ''TOPIC :Not enough parameters''
      else let channelName = getParameters cmd ! 0 in
        (case findChannel s channelName of
           None \<Rightarrow> send_numeric s fd ''403'' (channelName @ '' :No such channel'')
         | Some channel \<Rightarrow>
             if \<not> hasMember channel (getFd client)
             then send_numeric s fd ''442'' (channelName @ '' :You're not on that channel'')
             else if getParameterCount cmd = 1 then
               (if hasTopic channel
                then send_numeric s fd ''332'' (channelName @ '' :'' @ getTopic channel)
                else send_numeric s fd ''331'' (channelName @ '' :No topic is set''))
             else if isTopicRestricted channel \<and> \<not> IsMemberOperator channel (getFd client)
             then send_numeric s fd ''482'' (channelName @ '' :You're not channel operator'')
             else let newTopic = getParameters cmd ! 1;
                      s1 = on_channel (ircCaseFold channelName) (setTopic newTopic) s;
                      topicMessage = '':'' @ getPrefix client @ '' TOPIC '' @ channelName @ '' :'' @ newTopic
               in broadcastToChannel s1 (channel_at s1 (ircCaseFold channelName)) topicMessage no_exclusion))"

section \<open>KICK\<close>

text \<open>\<open>channel\<close> is the key of the channel; \<open>None\<close> is a null pointer.\<close>

definition removeMemberFromChannel :: "server \<Rightarrow> string option \<Rightarrow> descriptor \<Rightarrow> server" where
  "removeMemberFromChannel s channel fd =
     (case channel of
        None \<Rightarrow> s
      | Some key \<Rightarrow>
          let s1 = on_channel key (removeMember fd) s in
          if \<not> channel_empty (channel_at s1 key) then s1
          else s1\<lparr>s_channels := om_erase (ircCaseFold (getName (channel_at s1 key))) (s_channels s1)\<rparr>)"

definition handleKick :: "server \<Rightarrow> descriptor \<Rightarrow> command \<Rightarrow> server" where
  "handleKick s fd cmd =
     (let client = client_at s fd in
      if \<not> isRegistered client then send_numeric s fd ''451'' '':You have not registered''
      else if getParameterCount cmd < 2 then send_numeric s fd ''461'' ''KICK :Not enough parameters''
      else let channelName = getParameters cmd ! 0; targetNick = getParameters cmd ! 1 in
        (case findChannel s channelName of
           None \<Rightarrow> send_numeric s fd ''403'' (channelName @ '' :No such channel'')
         | Some channel \<Rightarrow>
             if \<not> hasMember channel (getFd client)
             then send_numeric s fd ''442'' (channelName @ '' :You're not on that channel'')
             else if \<not> IsMemberOperator channel (getFd client)
             then send_numeric s fd ''482'' (channelName @ '' :You're not channel operator'')
             else
               let not_there = send_numeric s fd ''441''
                     (targetNick @ '' '' @ channelName @ '' :They aren't on that channel'') in
               (case findClientByNickname s targetNick of
                  None \<Rightarrow> not_there
                | Some target \<Rightarrow>
                    if \<not> hasMember channel (getFd target) then not_there
                    else
                      let reason = (if 3 \<le> getParameterCount cmd then getParameters cmd ! 2
                                    else getNickname client);
                          kickMessage = '':'' @ getPrefix client @ '' KICK '' @ channelName @ '' ''
                            @ targetNick @ '' :'' @ reason;
                          s1 = broadcastToChannel s channel kickMessage no_exclusion
                      in removeMemberFromChannel s1 (Some (ircCaseFold channelName)) (getFd target))))"

section \<open>INVITE\<close>

definition handleInvite :: "server \<Rightarrow> descriptor \<Rightarrow> command \<Rightarrow> server" where
  "handleInvite s fd cmd =
     (let client = client_at s fd in
      if \<not> isRegistered client then send_numeric s fd ''451'' '':You have not registered''
      else if getParameterCount cmd < 2 then send_numeric s fd ''461'' ''INVITE :Not enough parameters''
      else let targetNick = getParameters cmd ! 0; channelName = getParameters cmd ! 1 in
        (case findClientByNickname s targetNick of
           None \<Rightarrow> send_numeric s fd ''401'' (targetNick @ '' :No such nick/channel'')
         | Some target \<Rightarrow>
           (case findChannel s channelName of
              None \<Rightarrow> send_numeric s fd ''403'' (channelName @ '' :No such channel'')
            | Some channel \<Rightarrow>
                if \<not> hasMember channel (getFd client)
                then send_numeric s fd ''442'' (channelName @ '' :You're not on that channel'')
                else if \<not> IsMemberOperator channel (getFd client)
                then send_numeric s fd ''482'' (channelName @ '' :You're not channel operator'')
                else if hasMember channel (getFd target)
                then send_numeric s fd ''443'' (targetNick @ '' '' @ channelName @ '' :is already on channel'')
                else
                  let s1 = on_channel (ircCaseFold channelName) (addInvite targetNick) s;
                      s2 = send_numeric s1 fd ''341'' (targetNick @ '' '' @ channelName);
                      inviteMessage = '':'' @ getPrefix client @ '' INVITE '' @ targetNick
                        @ '' :'' @ channelName
                  in queue_line s2 (getFd target) inviteMessage)))"

section \<open>The invariant\<close>

lemma findChannel_on_channel [simp]:
  "om_find (s_channels (on_channel key f s)) k =
     (if k = key then map_option f (om_find (s_channels s) key) else om_find (s_channels s) k)"
  by (simp add: on_channel_def)

lemma on_channel_comp: "on_channel k g (on_channel k f s) = on_channel k (\<lambda>ch. g (f ch)) s"
  by (simp add: on_channel_def om_update_comp)

lemma channel_inv_same:
  assumes "channel_inv s key ch" "channel_ok ch'" "ch_name ch' = ch_name ch"
    "hasMember ch' = hasMember ch" "ch_invitedUsers ch' = ch_invitedUsers ch"
  shows "channel_inv s key ch'"
  using assms by (simp add: channel_inv_def channel_empty_iff)

lemma channel_inv_ok: "channel_inv s key ch \<Longrightarrow> channel_ok ch"
  by (simp add: channel_inv_def)

lemma setTopic_sel [simp]:
  "ch_name (setTopic t ch) = ch_name ch" "hasMember (setTopic t ch) = hasMember ch"
  "ch_invitedUsers (setTopic t ch) = ch_invitedUsers ch" "ch_members (setTopic t ch) = ch_members ch"
  by (simp_all add: setTopic_def hasMember_def fun_eq_iff)

lemma channel_inv_topic: "channel_inv s key ch \<Longrightarrow> channel_inv s key (setTopic t ch)"
  by (rule channel_inv_same [of s key ch]) (auto simp: channel_inv_ok channel_ok_ops)

lemma channel_inv_invite:
  assumes "channel_inv s key ch" "om_find (s_nicknameIndex s) (ircCaseFold n) = Some g" "\<not> hasMember ch g"
  shows "channel_inv s key (addInvite n ch)"
  using assms by (auto simp: channel_inv_def channel_ok_ops channel_empty_iff)

lemma channel_inv_remove:
  assumes "channel_inv s key ch" "\<not> channel_empty (removeMember fd ch)"
  shows "channel_inv s key (removeMember fd ch)"
  using assms by (auto simp: channel_inv_def channel_ok_ops)

lemma channel_inv_join:
  assumes inv: "server_inv s" and ch: "channel_inv s key ch"
    and c: "findClient s fd = Some c" "c_registered c"
  shows "channel_inv s key (removeInvite (c_nickname c) (snd (addMember fd False ch)))"
proof -
  have nick: "c_nickname c \<noteq> []"
    using inv c by (auto simp: server_inv_def clients_ok_def isRegistrationReady_def)
  have "\<exists>g. om_find (s_nicknameIndex s) n = Some g \<and> g \<noteq> fd \<and> \<not> hasMember ch g"
    if n: "os_mem (ch_invitedUsers ch) n" "n \<noteq> ircCaseFold (c_nickname c)" for n
  proof -
    obtain g where g: "om_find (s_nicknameIndex s) n = Some g" "\<not> hasMember ch g"
      using ch n(1) by (auto simp: channel_inv_def)
    moreover have "g \<noteq> fd"
      using g(1) inv c(1) n(2) unfolding server_inv_def index_ok_def by fastforce
    ultimately show ?thesis by blast
  qed
  then show ?thesis
    using ch c by (auto simp: channel_inv_def channel_ok_ops channel_empty_iff)
qed

lemma channel_inv_create:
  assumes "findClient s fd = Some c" "c_registered c"
  shows "channel_inv s (ircCaseFold name) (snd (addMember fd True (new_channel name)))"
proof -
  have "hasMember (new_channel name) g = False" for g
    by (simp add: hasMember_def new_channel_def)
  then show ?thesis
    using assms channel_ok_ops(1) [OF channel_ok_new]
    by (simp add: channel_inv_def channel_empty_iff) (simp add: new_channel_def)
qed

lemma registered_found:
  assumes "server_inv s" "findClient s fd \<noteq> None" "isRegistered (client_at s fd)"
  shows "\<exists>c. findClient s fd = Some c \<and> client_at s fd = c \<and> c_registered c \<and> getFd c = fd"
  using assms client_fd_found [OF assms(1)] by (auto simp: client_at_def accessor_defs)

lemma join_replies_inv [simp]: "server_inv (join_replies s fd key) = server_inv s"
  by (simp add: join_replies_def Let_def)

lemma join_replies_bounded: "output_ok s \<Longrightarrow> output_ok (join_replies s fd key)"
  by (simp add: join_replies_def Let_def)

lemma join_replies_complete: "complete s \<Longrightarrow> complete (join_replies s fd key)"
  by (simp add: join_replies_def Let_def)

lemma join_replies_objects: "same_objects r s \<Longrightarrow> same_objects r (join_replies s fd key)"
  by (simp add: join_replies_def Let_def)

lemma handleJoin_inv:
  assumes inv: "server_inv s" and live: "findClient s fd \<noteq> None"
  shows "server_inv (handleJoin s fd cmd)"
proof (cases "isRegistered (client_at s fd)")
  case True
  then obtain c where c: "findClient s fd = Some c" "client_at s fd = c" "c_registered c" "getFd c = fd"
    using registered_found [OF inv live] by blast
  have create: "server_inv (on_channel (ircCaseFold n) (\<lambda>ch. snd (addMember fd True ch))
      (s\<lparr>s_channels := om_put (ircCaseFold n) (new_channel n) (s_channels s)\<rparr>))" for n
    by (simp add: on_channel_def, rule server_inv_channels [OF inv])
      (use inv channel_inv_create [OF c(1,3)] in \<open>auto simp: server_inv_def channels_ok_def split: if_splits\<close>)
  have enter: "server_inv (on_channel key (removeInvite (getNickname c))
      (on_channel key (\<lambda>ch. snd (addMember fd False ch)) s))" for key
    unfolding on_channel_comp getNickname_def
    by (rule server_inv_on_channel [OF inv]) (rule channel_inv_join [OF inv _ c(1,3)])
  show ?thesis
    using inv create enter by (simp add: handleJoin_def Let_def c(2,4) split: option.split)
qed (use inv in \<open>simp add: handleJoin_def\<close>)

lemma kick_inv:
  assumes inv: "server_inv s" and ch: "om_find (s_channels s) key = Some ch"
  shows "server_inv (removeMemberFromChannel s (Some key) fd)"
proof -
  have chi: "channel_inv s key ch"
    using inv ch by (simp add: server_inv_def channels_ok_def)
  then have name: "ircCaseFold (ch_name ch) = key"
    by (simp add: channel_inv_def)
  show ?thesis
  proof (cases "channel_empty (removeMember fd ch)")
    case True
    have "server_inv (s\<lparr>s_channels := om_erase key (om_update key (removeMember fd) (s_channels s))\<rparr>)"
      by (rule server_inv_channels [OF inv])
        (use inv in \<open>auto simp: server_inv_def channels_ok_def split: if_splits\<close>)
    then show ?thesis
      using True name
      by (simp add: removeMemberFromChannel_def Let_def channel_at_def ch getName_def) (simp add: on_channel_def)
  next
    case False
    then show ?thesis
      using channel_inv_remove [OF chi False]
      by (auto simp: removeMemberFromChannel_def Let_def channel_at_def ch intro!: server_inv_on_channel [OF inv])
  qed
qed

lemma removeMember_objects: "same_objects r s \<Longrightarrow> same_objects r (removeMemberFromChannel s k fd)"
  by (simp add: removeMemberFromChannel_def Let_def split: option.split)

lemma removeMember_complete: "complete s \<Longrightarrow> complete (removeMemberFromChannel s k fd)"
  by (simp add: removeMemberFromChannel_def Let_def split: option.split)

lemma removeMember_bounded: "output_ok s \<Longrightarrow> output_ok (removeMemberFromChannel s k fd)"
  by (simp add: removeMemberFromChannel_def Let_def split: option.split)

interpretation privmsg: irc_handler handlePrivmsg
  by unfold_locales (auto simp: handlePrivmsg_def Let_def split: option.split)

interpretation join: irc_handler handleJoin
proof unfold_locales
  show "output_ok s \<Longrightarrow> output_ok (handleJoin s fd cmd)" for s fd cmd
    by (simp add: handleJoin_def Let_def join_replies_bounded split: option.split)
  show "complete s \<Longrightarrow> complete (handleJoin s fd cmd)" for s fd cmd
    by (simp add: handleJoin_def Let_def join_replies_complete split: option.split)
  show "same_objects s (handleJoin s fd cmd)" for s fd cmd
    by (simp add: handleJoin_def Let_def join_replies_objects split: option.split)
qed (rule handleJoin_inv)

interpretation topic: irc_handler handleTopic
  by unfold_locales
    (auto simp: handleTopic_def Let_def channel_inv_topic split: option.split intro!: server_inv_on_channel)

lemma handleKick_inv:
  assumes "server_inv s"
  shows "server_inv (handleKick s fd cmd)"
  using assms
  by (auto simp: handleKick_def Let_def findChannel_def split: option.split intro!: kick_inv)

interpretation kick: irc_handler handleKick
  by unfold_locales
    (auto simp: handleKick_inv, auto simp: handleKick_def Let_def removeMember_objects removeMember_bounded
      removeMember_complete
      split: option.split)

lemma handleInvite_inv:
  assumes inv: "server_inv s"
  shows "server_inv (handleInvite s fd cmd)"
proof -
  have "server_inv (on_channel (ircCaseFold name) (addInvite n) s)"
    if t: "findClientByNickname s n = Some t" and ch: "findChannel s name = Some ch"
      "\<not> hasMember ch (getFd t)" for n t name ch
  proof (rule server_inv_on_channel [OF inv])
    fix ch'
    assume "om_find (s_channels s) (ircCaseFold name) = Some ch'" "channel_inv s (ircCaseFold name) ch'"
    with ch show "channel_inv s (ircCaseFold name) (addInvite n ch')"
      using channel_inv_invite [OF _ nickname_found(2) [OF inv t]] by (auto simp: findChannel_def getFd_def)
  qed
  then show ?thesis
    using inv by (auto simp: handleInvite_def Let_def split: option.split)
qed

interpretation invite: irc_handler handleInvite
  by unfold_locales
    (auto simp: handleInvite_inv, auto simp: handleInvite_def Let_def split: option.split)

end
