(* ===== verification/Irc_Mode.thy ===== *)
theory Irc_Mode
  imports Irc_Channel_Commands
begin

text \<open>
  The MODE command: the mode string parser of \<open>srcs/Command/Mode.cpp\<close> and the five mode
  changes of \<open>srcs/Command/ModeApply.cpp\<close>. The locale \<open>mode_applier\<close> is the contract
  the loop of \<open>handleMode\<close> needs of each of them; it is interpreted on all five and on the
  dispatcher.
\<close>

section \<open>Parsing a mode string\<close>

record mode_change =
  mc_adding :: bool
  mc_mode :: char
  mc_hasArgument :: bool
  mc_argument :: string

definition new_mode_change :: "bool \<Rightarrow> char \<Rightarrow> mode_change" where
  "new_mode_change addingMode modeCharacter =
     \<lparr>mc_adding = addingMode, mc_mode = modeCharacter, mc_hasArgument = False, mc_argument = []\<rparr>"

definition isChannelTarget :: "string \<Rightarrow> bool" where
  "isChannelTarget target =
     (if target = [] then False else target ! 0 = CHR ''#'' \<or> target ! 0 = CHR ''&'')"

definition modeNeedsArgument :: "char \<Rightarrow> bool \<Rightarrow> bool" where
  "modeNeedsArgument mode adding =
     (if mode = CHR ''k'' then True
      else if mode = CHR ''o'' then True
      else if mode = CHR ''l'' \<and> adding then True
      else False)"

text \<open>
  The loop of lines 50 to 99 over the characters that are left; \<open>None\<close> is
  \<open>return false\<close>, after which the caller drops \<open>changes\<close>.
\<close>

fun mode_loop :: "string list \<Rightarrow> string \<Rightarrow> bool \<Rightarrow> bool \<Rightarrow> nat \<Rightarrow> mode_change list \<Rightarrow> mode_change list option" where
  "mode_loop parameters [] adding signSeen argumentIndex changes = Some changes"
| "mode_loop parameters (character # cs) adding signSeen argumentIndex changes =
     (if character = CHR ''+'' then mode_loop parameters cs True True argumentIndex changes
      else if character = CHR ''-'' then mode_loop parameters cs False True argumentIndex changes
      else if \<not> signSeen then None
      else
        let change = new_mode_change adding character in
        if modeNeedsArgument character adding then
          if length parameters \<le> argumentIndex then None
          else mode_loop parameters cs adding signSeen (Suc argumentIndex)
            (changes @ [change\<lparr>mc_hasArgument := True, mc_argument := parameters ! argumentIndex\<rparr>])
        else mode_loop parameters cs adding signSeen argumentIndex (changes @ [change]))"

definition parseChannelModeChanges :: "string list \<Rightarrow> mode_change list option" where
  "parseChannelModeChanges parameters =
     (let modeString = parameters ! 1 in
      if modeString = [] then None
      else (case mode_loop parameters modeString True False 2 [] of
              None \<Rightarrow> None
            | Some changes \<Rightarrow> if changes = [] then None else Some changes))"

section \<open>Applying a change\<close>

definition parsePositiveUserLimit :: "string \<Rightarrow> size_word option" where
  "parsePositiveUserLimit text =
     (if text = [] \<or> text ! 0 < CHR ''0'' \<or> CHR ''9'' < text ! 0 then None
      else (case extract_unsigned text of
              None \<Rightarrow> None
            | Some (value, rest) \<Rightarrow>
                if extract_char rest \<noteq> None then None
                else if value = 0 then None
                else Some value))"

definition broadcastModeChange :: "server \<Rightarrow> descriptor \<Rightarrow> string \<Rightarrow> mode_change \<Rightarrow> server" where
  "broadcastModeChange s fd key change =
     (let channel = channel_at s key;
          message = '':'' @ getPrefix (client_at s fd) @ '' MODE '' @ getName channel @ '' ''
            @ (if mc_adding change then ''+'' else ''-'') @ [mc_mode change];
          message' = (if mc_hasArgument change then message @ '' '' @ mc_argument change else message)
      in broadcastToChannel s channel message' no_exclusion)"

definition applyInviteOnlyMode :: "server \<Rightarrow> descriptor \<Rightarrow> string \<Rightarrow> mode_change \<Rightarrow> server" where
  "applyInviteOnlyMode s fd key change =
     (if isInviteOnly (channel_at s key) = mc_adding change then s
      else broadcastModeChange (on_channel key (setInviteOnly (mc_adding change)) s) fd key change)"

definition applyTopicRestrictedMode :: "server \<Rightarrow> descriptor \<Rightarrow> string \<Rightarrow> mode_change \<Rightarrow> server" where
  "applyTopicRestrictedMode s fd key change =
     (if isTopicRestricted (channel_at s key) = mc_adding change then s
      else broadcastModeChange (on_channel key (setTopicRestricted (mc_adding change)) s) fd key change)"

definition applyKeyMode :: "server \<Rightarrow> descriptor \<Rightarrow> string \<Rightarrow> mode_change \<Rightarrow> server" where
  "applyKeyMode s fd key change =
     (let channel = channel_at s key in
      if mc_adding change then
        if mc_argument change = []
        then send_numeric s fd ''696'' (getName channel @ '' k :Invalid mode parameter'')
        else if hasKey channel \<and> getKey channel = mc_argument change then s
        else broadcastModeChange (on_channel key (setKey (mc_argument change)) s) fd key change
      else if \<not> hasKey channel then s
      else broadcastModeChange (on_channel key removeKey s) fd key change)"

definition applyOperatorMode :: "server \<Rightarrow> descriptor \<Rightarrow> string \<Rightarrow> mode_change \<Rightarrow> server" where
  "applyOperatorMode s fd key change =
     (let channel = channel_at s key in
      case findClientByNickname s (mc_argument change) of
        None \<Rightarrow> send_numeric s fd ''401'' (mc_argument change @ '' :No such nick/channel'')
      | Some target \<Rightarrow>
          if \<not> hasMember channel (getFd target)
          then send_numeric s fd ''441''
            (mc_argument change @ '' '' @ getName channel @ '' :They aren't on that channel'')
          else if IsMemberOperator channel (getFd target) = mc_adding change then s
          else broadcastModeChange
            (on_channel key (\<lambda>ch. snd (setMemberOperator (getFd target) (mc_adding change) ch)) s)
            fd key change)"

definition applyUserLimitMode :: "server \<Rightarrow> descriptor \<Rightarrow> string \<Rightarrow> mode_change \<Rightarrow> server" where
  "applyUserLimitMode s fd key change =
     (let channel = channel_at s key in
      if mc_adding change then
        (case parsePositiveUserLimit (mc_argument change) of
           None \<Rightarrow> send_numeric s fd ''696''
             (getName channel @ '' l '' @ mc_argument change @ '' :Invalid mode parameter'')
         | Some limit \<Rightarrow>
             if hasUserLimit channel \<and> getUserLimit channel = limit then s
             else broadcastModeChange (on_channel key (setUserLimit limit) s) fd key change)
      else if \<not> hasUserLimit channel then s
      else broadcastModeChange (on_channel key removeUserLimit s) fd key change)"

definition applyChannelModeChange :: "server \<Rightarrow> descriptor \<Rightarrow> string \<Rightarrow> mode_change \<Rightarrow> server" where
  "applyChannelModeChange s fd key change =
     (if mc_mode change = CHR ''i'' then applyInviteOnlyMode s fd key change
      else if mc_mode change = CHR ''t'' then applyTopicRestrictedMode s fd key change
      else if mc_mode change = CHR ''k'' then applyKeyMode s fd key change
      else if mc_mode change = CHR ''o'' then applyOperatorMode s fd key change
      else if mc_mode change = CHR ''l'' then applyUserLimitMode s fd key change
      else send_numeric s fd ''472'' ([mc_mode change] @ '' :is unknown mode char to me''))"

text \<open>The loop of lines 183 and 184 of \<open>Mode.cpp\<close>.\<close>

fun apply_changes :: "server \<Rightarrow> descriptor \<Rightarrow> string \<Rightarrow> mode_change list \<Rightarrow> server" where
  "apply_changes s fd key [] = s"
| "apply_changes s fd key (change # changes) =
     apply_changes (applyChannelModeChange s fd key change) fd key changes"

definition handleMode :: "server \<Rightarrow> descriptor \<Rightarrow> command \<Rightarrow> server" where
  "handleMode s fd cmd =
     (let parameters = getParameters cmd; client = client_at s fd in
      if \<not> isRegistered client then send_numeric s fd ''451'' '':You have not registered''
      else if parameters = [] then send_numeric s fd ''461'' ''MODE :Not enough parameters''
      else let target = parameters ! 0 in
        if \<not> isChannelTarget target then s
        else (case findChannel s target of
          None \<Rightarrow> send_numeric s fd ''403'' (target @ '' :No such channel'')
        | Some channel \<Rightarrow>
            if length parameters = 1 then s
            else if \<not> IsMemberOperator channel (getFd client)
            then send_numeric s fd ''482'' (target @ '' :You're not channel operator'')
            else (case parseChannelModeChanges parameters of
              None \<Rightarrow> s
            | Some changes \<Rightarrow> apply_changes s fd (ircCaseFold target) changes)))"

section \<open>The contract of a mode change\<close>

text \<open>What a mode change leaves alone in a channel.\<close>

definition same_core :: "channel \<Rightarrow> channel \<Rightarrow> bool" where
  "same_core ch ch' \<longleftrightarrow> ch_name ch' = ch_name ch \<and> ch_topic ch' = ch_topic ch
     \<and> hasMember ch' = hasMember ch \<and> ch_invitedUsers ch' = ch_invitedUsers ch"

lemma same_core_refl [simp]: "same_core ch ch"
  by (simp add: same_core_def)

lemma same_core_trans: "\<lbrakk>same_core a b; same_core b c\<rbrakk> \<Longrightarrow> same_core a c"
  by (simp add: same_core_def)

lemma channel_inv_core: "\<lbrakk>channel_inv s key ch; same_core ch ch'; channel_ok ch'\<rbrakk> \<Longrightarrow> channel_inv s key ch'"
  by (rule channel_inv_same) (auto simp: same_core_def)

lemma same_core_modes [simp]:
  "same_core ch (setInviteOnly b ch)" "same_core ch (setTopicRestricted b ch)"
  "same_core ch (setKey k ch)" "same_core ch (removeKey ch)"
  "same_core ch (setUserLimit l ch)" "same_core ch (removeUserLimit ch)"
  "same_core ch (snd (setMemberOperator fd b ch))"
  by (auto simp: same_core_def accessor_defs hasMember_def fun_eq_iff setMemberOperator_def split: option.split)

locale mode_applier =
  fixes ap :: "server \<Rightarrow> descriptor \<Rightarrow> string \<Rightarrow> mode_change \<Rightarrow> server"
  assumes inv: "server_inv s \<Longrightarrow> server_inv (ap s fd key change)"
    and bounded: "output_ok s \<Longrightarrow> output_ok (ap s fd key change)"
    and complete: "complete s \<Longrightarrow> complete (ap s fd key change)"
    and same_objects: "same_objects s (ap s fd key change)"
    and index: "s_nicknameIndex (ap s fd key change) = s_nicknameIndex s"
    and others: "k \<noteq> key \<Longrightarrow> om_find (s_channels (ap s fd key change)) k = om_find (s_channels s) k"
    and target: "om_find (s_channels s) key = Some ch \<Longrightarrow>
      \<exists>ch'. om_find (s_channels (ap s fd key change)) key = Some ch' \<and> same_core ch ch'"
begin

text \<open>The \<open>Channel &\<close> of the caller stays valid over any number of changes.\<close>

lemma channel_stays: "om_find (s_channels s) key = Some ch \<Longrightarrow> om_find (s_channels (ap s fd key change)) key \<noteq> None"
  using target by blast

lemma fold_inv: "server_inv s \<Longrightarrow> server_inv (fold (\<lambda>c s. ap s fd key c) cs s)"
  by (induction cs arbitrary: s) (auto intro: inv)

lemma fold_target:
  "om_find (s_channels s) key = Some ch \<Longrightarrow>
   \<exists>ch'. om_find (s_channels (fold (\<lambda>c s. ap s fd key c) cs s)) key = Some ch' \<and> same_core ch ch'"
proof (induction cs arbitrary: s ch)
  case (Cons c cs)
  obtain ch1 where "om_find (s_channels (ap s fd key c)) key = Some ch1" "same_core ch ch1"
    using target [OF Cons.prems] by blast
  with Cons.IH [of "ap s fd key c" ch1] same_core_trans show ?case by fastforce
qed simp

lemma fold_others:
  "k \<noteq> key \<Longrightarrow> om_find (s_channels (fold (\<lambda>c s. ap s fd key c) cs s)) k = om_find (s_channels s) k"
  by (induction cs arbitrary: s) (auto simp: others)

lemma fold_bounded: "output_ok s \<Longrightarrow> output_ok (fold (\<lambda>c s. ap s fd key c) cs s)"
  by (induction cs arbitrary: s) (auto intro: bounded)

lemma fold_complete: "complete s \<Longrightarrow> complete (fold (\<lambda>c s. ap s fd key c) cs s)"
  by (induction cs arbitrary: s) (auto intro: complete)

lemma fold_objects: "same_objects s (fold (\<lambda>c s. ap s fd key c) cs s)"
proof (induction cs arbitrary: s)
  case (Cons c cs)
  then show ?case
    using same_objects same_objects_trans by fastforce
qed simp

end

text \<open>The common shape: one field change followed by the announcement.\<close>

lemma broadcastModeChange_frame [simp]:
  "server_inv (broadcastModeChange s fd key change) = server_inv s"
  "s_channels (broadcastModeChange s fd key change) = s_channels s"
  "s_nicknameIndex (broadcastModeChange s fd key change) = s_nicknameIndex s"
  "output_ok s \<Longrightarrow> output_ok (broadcastModeChange s fd key change)"
  "complete s \<Longrightarrow> complete (broadcastModeChange s fd key change)"
  "same_objects r s \<Longrightarrow> same_objects r (broadcastModeChange s fd key change)"
  by (simp_all add: broadcastModeChange_def Let_def)

lemma server_inv_mode:
  assumes "server_inv s" "\<And>ch. channel_ok ch \<Longrightarrow> channel_ok (f ch)" "\<And>ch. same_core ch (f ch)"
  shows "server_inv (on_channel key f s)"
  using assms channel_inv_core channel_inv_ok by (blast intro: server_inv_on_channel)

lemma parsePositiveUserLimit_pos: "parsePositiveUserLimit text = Some limit \<Longrightarrow> limit \<noteq> 0"
  by (auto simp: parsePositiveUserLimit_def split: if_splits option.splits)

interpretation inviteOnly: mode_applier applyInviteOnlyMode
  by unfold_locales (auto simp: applyInviteOnlyMode_def channel_ok_ops intro!: server_inv_mode)

interpretation topicRestricted: mode_applier applyTopicRestrictedMode
  by unfold_locales (auto simp: applyTopicRestrictedMode_def channel_ok_ops intro!: server_inv_mode)

interpretation keyMode: mode_applier applyKeyMode
  by unfold_locales (auto simp: applyKeyMode_def Let_def channel_ok_ops intro!: server_inv_mode)

interpretation operatorMode: mode_applier applyOperatorMode
  by unfold_locales
    (auto simp: applyOperatorMode_def Let_def channel_ok_ops split: option.split intro!: server_inv_mode)

interpretation userLimit: mode_applier applyUserLimitMode
  by unfold_locales
    (auto simp: applyUserLimitMode_def Let_def channel_ok_ops parsePositiveUserLimit_pos split: option.split
      intro!: server_inv_mode)

interpretation modes: mode_applier applyChannelModeChange
  by unfold_locales
    (auto simp: applyChannelModeChange_def inviteOnly.inv topicRestricted.inv keyMode.inv operatorMode.inv
      userLimit.inv inviteOnly.bounded topicRestricted.bounded keyMode.bounded operatorMode.bounded
      userLimit.bounded inviteOnly.complete topicRestricted.complete keyMode.complete operatorMode.complete
      userLimit.complete inviteOnly.same_objects topicRestricted.same_objects keyMode.same_objects
      operatorMode.same_objects userLimit.same_objects inviteOnly.index topicRestricted.index
      keyMode.index operatorMode.index userLimit.index inviteOnly.others topicRestricted.others
      keyMode.others operatorMode.others userLimit.others inviteOnly.target topicRestricted.target
      keyMode.target operatorMode.target userLimit.target)

lemma apply_changes_fold: "apply_changes s fd key cs = fold (\<lambda>c s. applyChannelModeChange s fd key c) cs s"
  by (induction s fd key cs rule: apply_changes.induct) simp_all

interpretation mode: irc_handler handleMode
  by unfold_locales
    (auto simp: handleMode_def Let_def apply_changes_fold modes.fold_inv modes.fold_bounded modes.fold_complete
      modes.fold_objects split: option.split)

section \<open>Properties\<close>

text \<open>The mode string and the arguments of a list of changes.\<close>

definition mode_string :: "mode_change list \<Rightarrow> string" where
  "mode_string changes = concat (map (\<lambda>m. [if mc_adding m then CHR ''+'' else CHR ''-'', mc_mode m]) changes)"

definition mode_arguments :: "mode_change list \<Rightarrow> string list" where
  "mode_arguments changes = map mc_argument (filter mc_hasArgument changes)"

definition mode_change_ok :: "mode_change \<Rightarrow> bool" where
  "mode_change_ok m \<longleftrightarrow> mc_mode m \<noteq> CHR ''+'' \<and> mc_mode m \<noteq> CHR ''-''
     \<and> mc_hasArgument m = modeNeedsArgument (mc_mode m) (mc_adding m)
     \<and> (mc_hasArgument m \<or> mc_argument m = [])"

lemma mode_loop_print:
  "\<lbrakk>list_all mode_change_ok changes; drop k parameters = mode_arguments changes\<rbrakk> \<Longrightarrow>
   mode_loop parameters (mode_string changes) adding seen k done = Some (done @ changes)"
proof (induction changes arbitrary: adding seen k "done")
  case Nil
  then show ?case by (simp add: mode_string_def)
next
  case (Cons m changes)
  have m: "mode_change_ok m" and rest: "list_all mode_change_ok changes"
    using Cons.prems(1) by simp_all
  have string: "mode_string (m # changes) =
      (if mc_adding m then CHR ''+'' else CHR ''-'') # mc_mode m # mode_string changes"
    by (simp add: mode_string_def)
  show ?case
  proof (cases "mc_hasArgument m")
    case True
    then have "drop k parameters = mc_argument m # mode_arguments changes"
      using Cons.prems(2) by (simp add: mode_arguments_def)
    then have k: "k < length parameters" "parameters ! k = mc_argument m"
      "drop (Suc k) parameters = mode_arguments changes"
      by (auto simp: not_less nth_via_drop intro: ccontr) (metis drop_Suc tl_drop list.sel(3))
    have "(new_mode_change (mc_adding m) (mc_mode m))\<lparr>mc_hasArgument := True, mc_argument := mc_argument m\<rparr> = m"
      using True by (cases m) (simp add: new_mode_change_def)
    then show ?thesis
      using Cons.IH [OF rest k(3)] m True k
      by (cases "mc_adding m") (simp_all add: string mode_change_ok_def Let_def)
  next
    case False
    then have "drop k parameters = mode_arguments changes"
      using Cons.prems(2) by (simp add: mode_arguments_def)
    moreover have "new_mode_change (mc_adding m) (mc_mode m) = m"
      using False m by (cases m) (simp add: new_mode_change_def mode_change_ok_def)
    ultimately show ?thesis
      using Cons.IH [OF rest] m False
      by (cases "mc_adding m") (simp_all add: string mode_change_ok_def Let_def)
  qed
qed

text \<open>C32: Printing a list of mode changes and parsing it gives the list back: signs, modes and
  arguments are matched up in order, and every argument goes to the mode that takes it.\<close>

theorem mode_string_roundtrip:
  assumes "changes \<noteq> []" "list_all mode_change_ok changes"
  shows "parseChannelModeChanges (target # mode_string changes # mode_arguments changes) = Some changes"
proof -
  have "mode_loop (target # mode_string changes # mode_arguments changes) (mode_string changes) True False 2 []
      = Some changes"
    using mode_loop_print [OF assms(2), of 2 "target # mode_string changes # mode_arguments changes"] by simp
  moreover have "mode_string changes \<noteq> []"
    using assms(1) by (cases changes) (simp_all add: mode_string_def)
  ultimately show ?thesis
    using assms(1) by (simp add: parseChannelModeChanges_def)
qed

theorem mode_string_roundtrip_witness:
  "parseChannelModeChanges [''#room'', ''+k-i'', ''secret''] =
    Some [\<lparr>mc_adding = True, mc_mode = CHR ''k'', mc_hasArgument = True, mc_argument = ''secret''\<rparr>,
      new_mode_change False (CHR ''i'')]"
  using mode_string_roundtrip [of "[\<lparr>mc_adding = True, mc_mode = CHR ''k'', mc_hasArgument = True, mc_argument = ''secret''\<rparr>,
      new_mode_change False (CHR ''i'')]" "''#room''"]
  by (simp add: mode_string_def mode_arguments_def mode_change_ok_def new_mode_change_def modeNeedsArgument_def)

lemma digits_split:
  assumes "extract_unsigned (c # t) = Some (v, rest)" "is_digit c"
  shows "\<exists>ds. c # t = ds @ rest \<and> ds \<noteq> [] \<and> list_all is_digit ds \<and> digits_value ds = unat v"
proof -
  let ?ds = "takeWhile is_digit (c # t)" and ?rest = "dropWhile is_digit (c # t)"
  have e: "extract_unsigned (c # t) =
      (if 2 ^ 64 \<le> digits_value ?ds then None else Some (of_nat (digits_value ?ds), ?rest))"
    by (rule extract_unsigned_digits)
      (use assms(2) in \<open>auto simp: dropWhile_eq_Cons_conv dest: set_takeWhileD\<close>)
  then have "rest = ?rest" "v = of_nat (digits_value ?ds)" "digits_value ?ds < 2 ^ 64"
    using assms(1) by (auto split: if_splits)
  moreover have "list_all is_digit ?ds"
    by (auto simp: list_all_iff dest: set_takeWhileD)
  ultimately show ?thesis
    using assms(2) by (intro exI [of _ ?ds]) (simp add: unat_of_nat take_bit_nat_eq_self)
qed

text \<open>C33: The user limit is read exactly: the accepted texts are the decimal numbers, followed by white
  space only, whose value is positive and fits in 64 bits, and the limit is that value. No sign, no
  empty text, no overflow and no trailing character is accepted.\<close>

theorem user_limit_exact:
  "parsePositiveUserLimit argument = Some limit \<longleftrightarrow>
     (\<exists>ds rest. argument = ds @ rest \<and> ds \<noteq> [] \<and> list_all is_digit ds \<and> list_all is_space rest
        \<and> digits_value ds = unat limit \<and> limit \<noteq> 0)"
proof
  assume p: "parsePositiveUserLimit argument = Some limit"
  then obtain c t where ct: "argument = c # t" "is_digit c"
    by (cases argument) (auto simp: parsePositiveUserLimit_def is_digit_def not_less split: if_splits)
  then obtain rest where e: "extract_unsigned (c # t) = Some (limit, rest)" "extract_char rest = None"
    using p by (cases "extract_unsigned argument"; cases "extract_char (snd (the (extract_unsigned argument)))")
      (auto simp: parsePositiveUserLimit_def split: if_splits)
  with digits_split [OF e(1) ct(2)] parsePositiveUserLimit_pos [OF p] ct(1)
  show "\<exists>ds rest. argument = ds @ rest \<and> ds \<noteq> [] \<and> list_all is_digit ds \<and> list_all is_space rest
      \<and> digits_value ds = unat limit \<and> limit \<noteq> 0"
    by (auto simp: extract_char_None_iff list_all_iff)
next
  assume "\<exists>ds rest. argument = ds @ rest \<and> ds \<noteq> [] \<and> list_all is_digit ds \<and> list_all is_space rest
      \<and> digits_value ds = unat limit \<and> limit \<noteq> 0"
  then obtain ds rest where d: "argument = ds @ rest" "ds \<noteq> []" "list_all is_digit ds" "list_all is_space rest"
    "digits_value ds = unat limit" "limit \<noteq> 0"
    by blast
  obtain c t where ct: "argument = c # t" "is_digit c"
    using d(1-3) by (cases ds) auto
  have "extract_unsigned (c # t) =
      (if 2 ^ 64 \<le> digits_value ds then None else Some (of_nat (digits_value ds), rest))"
    by (rule extract_unsigned_digits) (use d ct is_digit_not_space in \<open>auto simp: list_all_iff\<close>)
  moreover have "unat limit < 2 ^ 64"
    using unsigned_less [of limit, where ?'a = nat] by simp
  ultimately have "extract_unsigned argument = Some (limit, rest)"
    by (simp add: ct(1) d(5))
  moreover have "extract_char rest = None"
    using d(4) by (simp add: extract_char_None_iff list_all_iff)
  ultimately show "parsePositiveUserLimit argument = Some limit"
    using ct d(6) by (simp add: parsePositiveUserLimit_def is_digit_def not_less)
qed

end
