(* ===== verification/Irc_Dispatch.thy ===== *)
theory Irc_Dispatch
  imports Irc_Register Irc_Channel_Commands Irc_Mode
begin

text \<open>
  From a complete line to its handler: \<open>dispatchCommand\<close> of
  \<open>srcs/Server/ServerCommand.cpp\<close> and \<open>handleCompleteLine\<close> of
  \<open>srcs/Server/ServerSend.cpp\<close>.
\<close>

definition dispatchCommand :: "server \<Rightarrow> descriptor \<Rightarrow> command \<Rightarrow> server" where
  "dispatchCommand s fd cmd =
     (let name = getCommandName cmd in
      if name = ''PING'' then handlePing s fd cmd
      else if name = ''QUIT'' then handleQuit s fd cmd
      else if name = ''CAP'' then handleCap s fd cmd
      else if name = ''PASS'' then handlePass s fd cmd
      else if name = ''USER'' then handleUser s fd cmd
      else if name = ''NICK'' then handleNick s fd cmd
      else if name = ''PRIVMSG'' then handlePrivmsg s fd cmd
      else if name = ''JOIN'' then handleJoin s fd cmd
      else if name = ''TOPIC'' then handleTopic s fd cmd
      else if name = ''KICK'' then handleKick s fd cmd
      else if name = ''INVITE'' then handleInvite s fd cmd
      else if name = ''MODE'' then handleMode s fd cmd
      else handleUnknownCommand s fd cmd)"

definition handleCompleteLine :: "server \<Rightarrow> descriptor \<Rightarrow> string \<Rightarrow> server" where
  "handleCompleteLine s fd line =
     (let cmd = parse_command line in
      if \<not> isValid cmd then s else dispatchCommand s fd cmd)"

lemmas handler_inv =
  ping.inv quit.inv cap.inv pass.inv user.inv nick.inv privmsg.inv join.inv topic.inv kick.inv
  invite.inv mode.inv unknown.inv

lemmas handler_bounded =
  ping.bounded quit.bounded cap.bounded pass.bounded user.bounded nick.bounded privmsg.bounded
  join.bounded topic.bounded kick.bounded invite.bounded mode.bounded unknown.bounded

lemmas handler_complete =
  ping.complete quit.complete cap.complete pass.complete user.complete nick.complete privmsg.complete
  join.complete topic.complete kick.complete invite.complete mode.complete unknown.complete

lemmas handler_objects =
  ping.same_objects quit.same_objects cap.same_objects pass.same_objects user.same_objects
  nick.same_objects privmsg.same_objects join.same_objects topic.same_objects kick.same_objects
  invite.same_objects mode.same_objects unknown.same_objects

interpretation dispatch: irc_handler dispatchCommand
  by unfold_locales
    (simp_all add: dispatchCommand_def Let_def handler_inv handler_bounded handler_complete handler_objects)

text \<open>A line is a handler too, with the parsed line as its command.\<close>

interpretation line: irc_handler "\<lambda>s fd cmd. if isValid cmd then dispatchCommand s fd cmd else s"
  by unfold_locales (simp_all add: dispatch.inv dispatch.bounded dispatch.complete dispatch.same_objects)

lemma handleCompleteLine_eq:
  "handleCompleteLine s fd l =
     (if isValid (parse_command l) then dispatchCommand s fd (parse_command l) else s)"
  by (simp add: handleCompleteLine_def Let_def)

lemma line_facts:
  "\<lbrakk>server_inv s; findClient s fd \<noteq> None\<rbrakk> \<Longrightarrow> server_inv (handleCompleteLine s fd l)"
  "output_ok s \<Longrightarrow> output_ok (handleCompleteLine s fd l)"
  "same_objects s (handleCompleteLine s fd l)"
  "findClient (handleCompleteLine s fd l) g = None \<longleftrightarrow> findClient s g = None"
  "map_option c_inputBuffer (findClient (handleCompleteLine s fd l) g) = map_option c_inputBuffer (findClient s g)"
  "complete s \<Longrightarrow> complete (handleCompleteLine s fd l)"
  unfolding handleCompleteLine_eq
  by (rule line.inv, assumption+) (rule line.bounded line.same_objects line.live line.input line.complete, assumption?)+

end
