(* ===== verification/Irc_Socket.thy ===== *)
theory Irc_Socket
  imports Irc_Dispatch
begin

text \<open>
  The connections: \<open>acceptClient\<close>, \<open>removeClient\<close> and \<open>receiveFromClient\<close> of
  \<open>srcs/Server/ServerSocket.cpp\<close>, \<open>cleanupClientIrcState\<close> of \<open>Server.cpp\<close> and
  \<open>addPollFd\<close> of \<open>ServerUtils.cpp\<close>, each shown to keep the invariant. The results of
  \<open>accept\<close>, \<open>fcntl\<close>, \<open>recv\<close> and \<open>send\<close> are parameters. A C++ exception is the
  message of \<open>what()\<close>, next to the state it leaves.
\<close>

section \<open>Descriptors and the poll list\<close>

definition close_fd :: "descriptor \<Rightarrow> server \<Rightarrow> server" where
  "close_fd fd s = s\<lparr>s_openFds := remove1 fd (s_openFds s)\<rparr>"

definition addPollFd :: "server \<Rightarrow> descriptor \<Rightarrow> short_int \<Rightarrow> string option \<times> server" where
  "addPollFd s fd events =
     (if \<exists>p\<in>set (s_pollFds s). pf_fd p = fd
      then (Some ''attempted to register the same fd twice !!!'', s)
      else (None, s\<lparr>s_pollFds := s_pollFds s @ [\<lparr>pf_fd = fd, pf_events = events, pf_revents = 0\<rparr>]\<rparr>))"

text \<open>
  \<open>acceptClient\<close>: \<open>accept_ret\<close> is what \<open>accept\<close> returns, \<open>nonblock_ok\<close> whether
  \<open>setNonBlocking\<close> succeeds. The handler of line 123 erases the table entry and closes the
  descriptor (through the client's destructor if it was made) before the exception goes on.
\<close>

definition acceptClient :: "int \<Rightarrow> bool \<Rightarrow> server \<Rightarrow> string option \<times> server" where
  "acceptClient accept_ret nonblock_ok s =
     (if accept_ret = -1 then (None, s)
      else let clientFd = accept_ret;
               s0 = s\<lparr>s_openFds := clientFd # s_openFds s\<rparr>;
               give_up = (\<lambda>s. close_fd clientFd (s\<lparr>s_clients := om_erase clientFd (s_clients s)\<rparr>)) in
        if \<not> nonblock_ok then (Some ''fcntl() failed'', give_up s0)
        else if findClient s0 clientFd \<noteq> None
        then (Some ''accepted fd already belongs to a client'', give_up s0)
        else let s1 = s0\<lparr>s_clients := om_insert clientFd (new_client clientFd) (s_clients s0)\<rparr> in
          (case addPollFd s1 clientFd POLLIN of
             (Some what, s2) \<Rightarrow> (Some what, give_up s2)
           | (None, s2) \<Rightarrow> (None, s2)))"

section \<open>Clean-up of a leaving client\<close>

text \<open>Lines 184 to 189: every member but the leaving one.\<close>

fun insert_peers :: "descriptor \<Rightarrow> member_map \<Rightarrow> descriptor oset \<Rightarrow> descriptor oset" where
  "insert_peers fd [] recipients = recipients"
| "insert_peers fd ((g, m) # members) recipients =
     insert_peers fd members (if g \<noteq> fd then os_insert g recipients else recipients)"

text \<open>Lines 175 to 190.\<close>

fun quit_recipients :: "descriptor \<Rightarrow> (string, channel) omap \<Rightarrow> descriptor oset \<Rightarrow> descriptor oset" where
  "quit_recipients fd [] recipients = recipients"
| "quit_recipients fd ((key, channel) # channels) recipients =
     quit_recipients fd channels
       (if \<not> hasMember channel fd then recipients
        else insert_peers fd (getMembers channel) recipients)"

text \<open>Lines 211 to 229: one pass over the channels, erasing those that became empty.\<close>

fun purge_channels :: "string \<Rightarrow> descriptor \<Rightarrow> (string, channel) omap \<Rightarrow> (string, channel) omap" where
  "purge_channels nickname fd [] = []"
| "purge_channels nickname fd ((key, channel) # channels) =
     (let channel1 = (if nickname \<noteq> [] then removeInvite nickname channel else channel);
          channel2 = removeMember fd channel1 in
      if channel_empty channel2 then purge_channels nickname fd channels
      else (key, channel2) # purge_channels nickname fd channels)"

definition cleanupClientIrcState :: "server \<Rightarrow> descriptor \<Rightarrow> server" where
  "cleanupClientIrcState s ref =
     (let client = client_at s ref;
          fd = getFd client;
          nickname = getNickname client;
          quitRecipients = quit_recipients fd (s_channels s) [];
          s1 = (if isRegistered client then
                  let reason = (if getDisconnectReason client = [] then ''Connection closed''
                                else getDisconnectReason client);
                      quitMessage = '':'' @ getPrefix client @ '' QUIT :'' @ reason
                  in queue_to_each quitRecipients quitMessage s
                else s);
          s2 = s1\<lparr>s_channels := purge_channels nickname fd (s_channels s1)\<rparr>
      in if nickname \<noteq> [] then
           (case om_find (s_nicknameIndex s2) (ircCaseFold nickname) of
              None \<Rightarrow> s2
            | Some owner \<Rightarrow>
                if owner = fd
                then s2\<lparr>s_nicknameIndex := om_erase (ircCaseFold nickname) (s_nicknameIndex s2)\<rparr>
                else s2)
         else s2)"

text \<open>The destructor of \<open>Client\<close> closes the descriptor.\<close>

definition delete_client :: "client \<Rightarrow> server \<Rightarrow> server" where
  "delete_client c s = (if 0 \<le> c_fd c then close_fd (c_fd c) s else s)"

definition erase_at :: "nat \<Rightarrow> 'a list \<Rightarrow> 'a list" where
  "erase_at index xs = take index xs @ drop (Suc index) xs"

definition removeClient :: "server \<Rightarrow> nat \<Rightarrow> server" where
  "removeClient s index =
     (let fd = pf_fd (s_pollFds s ! index);
          s1 = (case findClient s fd of
                  None \<Rightarrow> s
                | Some removed \<Rightarrow>
                    let s1 = cleanupClientIrcState s fd;
                        s2 = s1\<lparr>s_clients := om_erase fd (s_clients s1)\<rparr>
                    in delete_client removed s2)
      in s1\<lparr>s_pollFds := erase_at index (s_pollFds s1)\<rparr>)"

section \<open>Reading from a client\<close>

definition MAX_PENDING_INPUT :: nat where
  "MAX_PENDING_INPUT = 64 * 1024"

text \<open>What \<open>recv\<close> returns: an error, or the bytes read (none at end of stream).\<close>

datatype recv_result = Recv_error | Recv_bytes string

text \<open>
  The loop of lines 214 to 220. The client reference was checked before the loop and stays
  valid, since no handler destroys a client; reading through it is \<open>findClient\<close> here, which
  is also what makes the loop end.
\<close>

definition after_pop :: "client \<Rightarrow> client" where
  "after_pop c = (case popLine c of None \<Rightarrow> c | Some (line, c') \<Rightarrow> c')"

lemma after_pop_sel [simp]:
  "c_nickname (after_pop c) = c_nickname c" "c_fd (after_pop c) = c_fd c"
  "c_registered (after_pop c) = c_registered c" "c_outputBuffer (after_pop c) = c_outputBuffer c"
  "isRegistrationReady (after_pop c) = isRegistrationReady c"
  by (auto simp: after_pop_def isRegistrationReady_def dest: popLine_Some split: option.split)

text \<open>The state after the next line was taken and handled.\<close>

abbreviation line_step :: "server \<Rightarrow> descriptor \<Rightarrow> string \<Rightarrow> server" where
  "line_step s fd line \<equiv> handleCompleteLine (on_client fd after_pop s) fd line"

lemma input_after_line:
  assumes "findClient s fd = Some client"
  shows "\<exists>d. findClient (line_step s fd l) fd = Some d \<and> c_inputBuffer d = c_inputBuffer (after_pop client)"
proof -
  have "map_option c_inputBuffer (findClient (line_step s fd l) fd) = Some (c_inputBuffer (after_pop client))"
    using assms by (simp add: line_facts(5))
  then show ?thesis
    by (cases "findClient (line_step s fd l) fd") auto
qed

function process_lines :: "server \<Rightarrow> descriptor \<Rightarrow> server" where
  "process_lines s fd =
     (case findClient s fd of
        None \<Rightarrow> s
      | Some client \<Rightarrow>
          (case popLine client of
             None \<Rightarrow> s
           | Some (line, client') \<Rightarrow>
               let s1 = on_client fd after_pop s;
                   s2 = handleCompleteLine s1 fd line in
               if isDisconnectRequested (client_at s2 fd) then s2
               else process_lines s2 fd))"
  by pat_completeness auto

termination
proof (relation "measure (\<lambda>(s, fd). case findClient s fd of None \<Rightarrow> 0 | Some c \<Rightarrow> size c)",
    goal_cases)
  case (2 s fd client p line client' s1 s2)
  then obtain d where "findClient s2 fd = Some d" "c_inputBuffer d = c_inputBuffer (after_pop client)"
    using input_after_line [of s fd client line] by auto
  moreover have "size (after_pop client) < size client"
    using 2 popLine_shorter by (auto simp: after_pop_def)
  ultimately show ?case
    using 2 by (simp add: size_client_ext_def)
qed simp

declare process_lines.simps [simp del]

definition receiveFromClient :: "(descriptor \<Rightarrow> recv_result) \<Rightarrow> server \<Rightarrow> nat \<Rightarrow> bool \<times> server" where
  "receiveFromClient recv s index =
     (let fd = pf_fd (s_pollFds s ! index) in
      case findClient s fd of
        None \<Rightarrow> (False, s)
      | Some client \<Rightarrow>
          (case recv fd of
             Recv_error \<Rightarrow> (False, s)
           | Recv_bytes buffer \<Rightarrow>
               if buffer = [] then (False, s)
               else let s1 = on_client fd (appendInput buffer) s;
                        s2 = process_lines s1 fd in
                 if MAX_PENDING_INPUT < getInputSize (client_at s2 fd) then (False, s2)
                 else (True, s2)))"

section \<open>Reading keeps the invariant\<close>

text \<open>The tables of descriptors and objects, which reading leaves alone.\<close>

definition same_tables :: "server \<Rightarrow> server \<Rightarrow> bool" where
  "same_tables s t \<longleftrightarrow>
     om_keys (s_clients t) = om_keys (s_clients s) \<and> s_listenerFd t = s_listenerFd s
     \<and> s_password t = s_password s \<and> s_openFds t = s_openFds s
     \<and> map pf_fd (s_pollFds t) = map pf_fd (s_pollFds s)"

lemma same_tables_refl [simp]: "same_tables s s"
  by (simp add: same_tables_def)

lemma same_tables_trans: "\<lbrakk>same_tables s t; same_tables t u\<rbrakk> \<Longrightarrow> same_tables s u"
  by (simp add: same_tables_def)

lemma same_tables_objects: "same_objects s t \<Longrightarrow> same_tables s t"
  by (simp add: same_objects_def same_tables_def)

lemma same_tables_on_client: "same_tables s (on_client fd f s)"
  by (simp add: same_tables_def)

text \<open>A relation that every handled line respects holds over the whole loop.\<close>

lemma process_lines_rel:
  assumes "\<And>s. R s s" and "\<And>s t u. \<lbrakk>R s t; R t u\<rbrakk> \<Longrightarrow> R s u"
    and line: "\<And>s c l c'. \<lbrakk>findClient s fd = Some c; popLine c = Some (l, c')\<rbrakk> \<Longrightarrow> R s (line_step s fd l)"
  shows "R s (process_lines s fd)"
  using line
proof (induction s fd rule: process_lines.induct)
  case (1 s fd)
  show ?case
  proof (cases "findClient s fd")
    case None
    then show ?thesis
      using assms(1) by (subst process_lines.simps) simp
  next
    case (Some c)
    show ?thesis
    proof (cases "popLine c")
      case None
      with Some show ?thesis
        using assms(1) by (subst process_lines.simps) simp
    next
      case pop: (Some p)
      obtain l c' where p: "p = (l, c')" by (cases p)
      have step: "R s (line_step s fd l)"
        using 1(2) [OF Some pop [unfolded p]] .
      show ?thesis
      proof (cases "isDisconnectRequested (client_at (line_step s fd l) fd)")
        case True
        with Some pop p step show ?thesis
          by (subst process_lines.simps) simp
      next
        case False
        then have "R (line_step s fd l) (process_lines (line_step s fd l) fd)"
          using 1(1) [OF Some pop p [symmetric] refl refl] 1(2) by blast
        with False Some pop p step assms(2) show ?thesis
          by (subst process_lines.simps) simp
      qed
    qed
  qed
qed

lemma server_inv_after_pop: "server_inv s \<Longrightarrow> server_inv (on_client fd after_pop s)"
  by (rule server_inv_on_client) (auto simp: server_inv_def clients_ok_def)

lemma process_lines_inv: "server_inv s \<Longrightarrow> server_inv (process_lines s fd)"
  by (rule process_lines_rel [where R = "\<lambda>s t. server_inv s \<longrightarrow> server_inv t", rule_format])
    (auto intro!: line_facts(1) server_inv_after_pop)

lemma process_lines_bounded: "output_ok s \<Longrightarrow> output_ok (process_lines s fd)"
  by (rule process_lines_rel [where R = "\<lambda>s t. output_ok s \<longrightarrow> output_ok t", rule_format])
    (auto intro!: line_facts(2) bounded_on_client)

lemma complete_on_client:
  assumes "\<And>c. isRegistrationReady (f c) = isRegistrationReady c" "\<And>c. c_registered (f c) = c_registered c"
    "complete s"
  shows "complete (on_client fd f s)"
  using assms unfolding complete_def by (auto split: if_splits)

lemma process_lines_complete: "complete s \<Longrightarrow> complete (process_lines s fd)"
  by (rule process_lines_rel [where R = "\<lambda>s t. complete s \<longrightarrow> complete t", rule_format])
    (auto intro!: line_facts(6) complete_on_client)

lemma process_lines_tables: "same_tables s (process_lines s fd)"
  by (rule process_lines_rel [where R = same_tables])
    (auto intro: same_tables_trans same_tables_on_client same_tables_objects line_facts(3))

lemma server_inv_appendInput: "server_inv s \<Longrightarrow> server_inv (on_client fd (appendInput d) s)"
  by (rule server_inv_on_client) (auto simp: server_inv_def clients_ok_def accessor_defs)

lemma receive_inv: "server_inv s \<Longrightarrow> server_inv (snd (receiveFromClient recv s i))"
  by (auto simp: receiveFromClient_def Let_def process_lines_inv server_inv_appendInput
      split: option.split recv_result.split)

lemma receive_bounded: "output_ok s \<Longrightarrow> output_ok (snd (receiveFromClient recv s i))"
  by (auto simp: receiveFromClient_def Let_def appendInput_def intro!: process_lines_bounded bounded_on_client
      split: option.split recv_result.split)

lemma receive_complete: "complete s \<Longrightarrow> complete (snd (receiveFromClient recv s i))"
  by (auto simp: receiveFromClient_def Let_def appendInput_def isRegistrationReady_def
      intro!: process_lines_complete complete_on_client split: option.split recv_result.split)

lemma receive_tables: "same_tables s (snd (receiveFromClient recv s i))"
  using same_tables_trans [OF same_tables_on_client process_lines_tables]
  by (auto simp: receiveFromClient_def Let_def split: option.split recv_result.split)

section \<open>Removing a client keeps the invariant\<close>

lemma om_find_purge:
  "om_ok chs \<Longrightarrow> om_find (purge_channels n fd chs) key =
     (case om_find chs key of
        None \<Rightarrow> None
      | Some ch \<Rightarrow> let ch' = removeMember fd (if n \<noteq> [] then removeInvite n ch else ch) in
          if channel_empty ch' then None else Some ch')"
proof (induction n fd chs rule: purge_channels.induct)
  case (2 n fd k ch chs)
  then have "om_find chs k = None"
    by (auto simp: om_find_None_iff)
  with 2 show ?case
    by (auto simp: Let_def split: option.split)
qed simp

lemma purge_keys: "set (om_keys (purge_channels n fd chs)) \<subseteq> set (om_keys chs)"
proof (induction chs)
  case (Cons p chs)
  then show ?case
    by (cases p) (auto simp: Let_def)
qed simp

lemma purge_ok: "om_ok chs \<Longrightarrow> om_ok (purge_channels n fd chs)"
proof (induction chs)
  case (Cons p chs)
  then show ?case
    using purge_keys [of n fd chs] by (cases p) (auto simp: Let_def)
qed simp

text \<open>\<open>cleanupClientIrcState\<close> is a broadcast followed by a change of two tables.\<close>

definition quit_broadcast :: "server \<Rightarrow> descriptor \<Rightarrow> server" where
  "quit_broadcast s ref =
     (let client = client_at s ref in
      if isRegistered client then
        queue_to_each (quit_recipients (getFd client) (s_channels s) [])
          ('':'' @ getPrefix client @ '' QUIT :''
            @ (if getDisconnectReason client = [] then ''Connection closed'' else getDisconnectReason client)) s
      else s)"

interpretation quitBroadcast: bounded_op "\<lambda>s. quit_broadcast s ref" for ref
  by unfold_locales (simp_all add: quit_broadcast_def Let_def skel_simps)

lemma cleanup_eq:
  assumes inv: "server_inv s" and c: "findClient s fd = Some c"
  shows "cleanupClientIrcState s fd = (quit_broadcast s fd)
    \<lparr>s_channels := purge_channels (c_nickname c) fd (s_channels s),
     s_nicknameIndex := (if c_nickname c \<noteq> [] then om_erase (ircCaseFold (c_nickname c)) (s_nicknameIndex s)
       else s_nicknameIndex s)\<rparr>"
  using client_fd_found [OF inv c] nickname_owner [OF inv c]
  by (simp add: cleanupClientIrcState_def quit_broadcast_def Let_def client_at_def c accessor_defs)

lemma erase_at_map: "map f (erase_at i xs) = erase_at i (map f xs)"
  by (simp add: erase_at_def take_map drop_map)

lemma set_erase_at:
  assumes "distinct xs" "i < length xs"
  shows "set (erase_at i xs) = set xs - {xs ! i}"
proof -
  have split: "xs = take i xs @ xs ! i # drop (Suc i) xs"
    by (rule id_take_nth_drop [OF assms(2)])
  then have "set xs = set (take i xs @ xs ! i # drop (Suc i) xs)"
    and "distinct (take i xs @ xs ! i # drop (Suc i) xs)"
    using assms(1) by simp_all
  then show ?thesis
    by (auto simp: erase_at_def)
qed

lemma distinct_erase_at: "distinct xs \<Longrightarrow> distinct (erase_at i xs)"
  unfolding erase_at_def
  by (auto simp: set_take_disj_set_drop_if_distinct)

text \<open>The tables without one client: \<open>removeClient\<close> after the broadcast.\<close>

definition drop_client :: "string \<Rightarrow> descriptor \<Rightarrow> nat \<Rightarrow> server \<Rightarrow> server" where
  "drop_client nickname fd index s =
     s\<lparr>s_clients := om_erase fd (s_clients s),
       s_channels := purge_channels nickname fd (s_channels s),
       s_nicknameIndex := (if nickname \<noteq> [] then om_erase (ircCaseFold nickname) (s_nicknameIndex s)
         else s_nicknameIndex s),
       s_openFds := remove1 fd (s_openFds s),
       s_pollFds := erase_at index (s_pollFds s)\<rparr>"

lemma polled_client:
  assumes "server_inv s" "i < length (s_pollFds s)" "pf_fd (s_pollFds s ! i) \<noteq> s_listenerFd s"
  shows "\<exists>c. findClient s (pf_fd (s_pollFds s ! i)) = Some c"
proof -
  have "pf_fd (s_pollFds s ! i) \<in> set (map pf_fd (s_pollFds s))"
    using assms(2) by simp
  then show ?thesis
    using assms by (simp add: server_inv_def poll_ok_def findClient_def om_find_not_None_iff del: set_map)
qed

lemma removeClient_eq:
  assumes inv: "server_inv s" and c: "findClient s (pf_fd (s_pollFds s ! i)) = Some c"
  shows "removeClient s i = drop_client (c_nickname c) (pf_fd (s_pollFds s ! i)) i
    (quit_broadcast s (pf_fd (s_pollFds s ! i)))"
proof -
  let ?fd = "pf_fd (s_pollFds s ! i)"
  have "c_fd c = ?fd" "0 \<le> ?fd"
    using client_fd_found [OF inv c] inv c
    by (auto simp: server_inv_def fds_ok_def findClient_def simp flip: om_find_not_None_iff)
  then show ?thesis
    using cleanup_eq [OF inv c] c
    by (simp add: removeClient_def Let_def drop_client_def delete_client_def close_fd_def quitBroadcast.frame)
qed

lemma findClient_drop [simp]:
  "findClient (drop_client n fd i s) g = (if g = fd then None else findClient s g)"
  by (simp add: drop_client_def findClient_def)

lemma drop_client_sel [simp]:
  "s_listenerFd (drop_client n fd i s) = s_listenerFd s" "s_password (drop_client n fd i s) = s_password s"
  "s_openFds (drop_client n fd i s) = remove1 fd (s_openFds s)"
  "s_clients (drop_client n fd i s) = om_erase fd (s_clients s)"
  "s_channels (drop_client n fd i s) = purge_channels n fd (s_channels s)"
  "s_nicknameIndex (drop_client n fd i s) =
     (if n \<noteq> [] then om_erase (ircCaseFold n) (s_nicknameIndex s) else s_nicknameIndex s)"
  "s_pollFds (drop_client n fd i s) = erase_at i (s_pollFds s)"
  by (simp_all add: drop_client_def)

lemma index_ok_drop:
  assumes inv: "server_inv s" and c: "findClient s fd = Some c"
  shows "index_ok (drop_client (c_nickname c) fd i s)"
proof -
  let ?t = "drop_client (c_nickname c) fd i s"
  have ix: "om_find (s_nicknameIndex s) k = Some g \<longleftrightarrow>
      (\<exists>d. findClient s g = Some d \<and> c_nickname d \<noteq> [] \<and> ircCaseFold (c_nickname d) = k)" for k g
    using inv unfolding server_inv_def index_ok_def by blast
  have "om_find (s_nicknameIndex ?t) k = Some g \<longleftrightarrow>
      (\<exists>d. findClient ?t g = Some d \<and> c_nickname d \<noteq> [] \<and> ircCaseFold (c_nickname d) = k)" for k g
  proof (cases "g = fd")
    case True
    then show ?thesis
      using ix [of k fd] c by auto
  next
    case False
    then have "\<not> (om_find (s_nicknameIndex s) k = Some g \<and> c_nickname c \<noteq> [] \<and> k = ircCaseFold (c_nickname c))"
      using nickname_owner [OF inv c] by auto
    with False show ?thesis
      using ix [of k g] by auto
  qed
  then show ?thesis
    using inv by (simp add: server_inv_def index_ok_def del: drop_client_sel(6)) simp
qed

text \<open>A channel after a purge still has only live members and live invitations.\<close>

lemma channel_inv_drop:
  assumes inv: "server_inv s" and c: "findClient s fd = Some c" and ch: "channel_inv s key ch"
    and ne: "\<not> channel_empty (removeMember fd (if c_nickname c \<noteq> [] then removeInvite (c_nickname c) ch else ch))"
  shows "channel_inv (drop_client (c_nickname c) fd i s) key
    (removeMember fd (if c_nickname c \<noteq> [] then removeInvite (c_nickname c) ch else ch))"
proof -
  have "c_nickname c \<noteq> [] \<Longrightarrow> om_find (s_nicknameIndex s) (ircCaseFold (c_nickname c)) = Some fd"
    by (rule nickname_owner [OF inv c])
  then show ?thesis
    using ch ne by (auto simp: channel_inv_def channel_ok_ops)
qed

lemma poll_ok_drop:
  assumes ok: "poll_ok s" and i: "i < length (s_pollFds s)" "pf_fd (s_pollFds s ! i) = fd"
    and fd: "fd \<noteq> s_listenerFd s"
  shows "poll_ok (drop_client n fd i s)"
proof -
  let ?ps = "map pf_fd (s_pollFds s)"
  have d: "distinct ?ps" and s: "set ?ps = insert (s_listenerFd s) (set (om_keys (s_clients s)))"
    and l: "s_listenerFd s \<notin> set (om_keys (s_clients s))"
    using ok unfolding poll_ok_def by simp_all
  have "set (erase_at i ?ps) = set ?ps - {fd}"
    using set_erase_at [OF d] i by simp
  then have "set (erase_at i ?ps) = insert (s_listenerFd s) (set (om_keys (s_clients s)) - {fd})"
    using s fd by auto
  then show ?thesis
    using l d unfolding poll_ok_def by (simp add: erase_at_map distinct_erase_at del: set_map)
qed

lemma server_inv_drop:
  assumes inv: "server_inv s" and c: "findClient s fd = Some c"
    and i: "i < length (s_pollFds s)" "pf_fd (s_pollFds s ! i) = fd" "fd \<noteq> s_listenerFd s"
  shows "server_inv (drop_client (c_nickname c) fd i s)"
proof -
  let ?t = "drop_client (c_nickname c) fd i s"
  have "clients_ok ?t"
    using inv by (auto simp: server_inv_def clients_ok_def split: if_splits)
  moreover have "channels_ok ?t"
    using inv channel_inv_drop [OF inv c]
    by (auto simp: server_inv_def channels_ok_def purge_ok om_find_purge Let_def split: option.splits if_splits)
  moreover have "poll_ok ?t"
    using inv i by (simp add: server_inv_def poll_ok_drop)
  moreover have "fds_ok ?t"
    using inv i(3) by (auto simp: server_inv_def fds_ok_def)
  ultimately show ?thesis
    using index_ok_drop [OF inv c] by (simp add: server_inv_def)
qed

lemma same_entry:
  assumes "map pf_fd (s_pollFds t) = map pf_fd (s_pollFds s)" "i < length (s_pollFds s)"
  shows "i < length (s_pollFds t)" "pf_fd (s_pollFds t ! i) = pf_fd (s_pollFds s ! i)"
proof -
  show i: "i < length (s_pollFds t)"
    using assms by (metis length_map)
  show "pf_fd (s_pollFds t ! i) = pf_fd (s_pollFds s ! i)"
    using arg_cong [OF assms(1), of "\<lambda>xs. xs ! i"] assms(2) i by simp
qed

lemma removeClient_inv:
  assumes inv: "server_inv s"
    and i: "i < length (s_pollFds s)" "pf_fd (s_pollFds s ! i) \<noteq> s_listenerFd s"
  shows "server_inv (removeClient s i)"
proof -
  let ?fd = "pf_fd (s_pollFds s ! i)" and ?q = "quit_broadcast s (pf_fd (s_pollFds s ! i))"
  obtain c where c: "findClient s ?fd = Some c"
    using polled_client [OF inv i] by blast
  obtain d where d: "findClient ?q ?fd = Some d" "c_nickname d = c_nickname c"
    using quitBroadcast.keeps_nick [OF c, of ?fd] by blast
  note entry = same_entry [OF quitBroadcast.frame(8) i(1), of ?fd]
  show ?thesis
    using server_inv_drop [OF _ d(1) entry] inv i(2)
    by (simp add: removeClient_eq [OF inv c] d(2) quitBroadcast.inv quitBroadcast.frame)
qed

lemma armed_erase: "\<lbrakk>i < length ps; pf_fd (ps ! i) \<noteq> fd\<rbrakk> \<Longrightarrow> armed (erase_at i ps) fd = armed ps fd"
proof (induction ps arbitrary: i)
  case (Cons p ps)
  then show ?case by (cases i) (auto simp: erase_at_def)
qed simp

lemma removeClient_bounded:
  assumes inv: "server_inv s" and bounded: "output_ok s"
    and i: "i < length (s_pollFds s)" "pf_fd (s_pollFds s ! i) \<noteq> s_listenerFd s"
  shows "output_ok (removeClient s i)"
proof -
  let ?fd = "pf_fd (s_pollFds s ! i)" and ?q = "quit_broadcast s (pf_fd (s_pollFds s ! i))"
  obtain c where c: "findClient s ?fd = Some c"
    using polled_client [OF inv i] by blast
  have q: "server_inv ?q" "output_ok ?q"
    using inv quitBroadcast.bounded [OF bounded] by (simp_all add: quitBroadcast.inv)
  note entry = same_entry [OF quitBroadcast.frame(8) i(1), of ?fd]
  have "armed (erase_at i (s_pollFds ?q)) (c_fd d)"
    if "findClient ?q g = Some d" "g \<noteq> ?fd" "c_outputBuffer d \<noteq> []" for g d
    using that output_armed [OF q that(1,3)] armed_erase [OF entry(1)] client_fd_found [OF q(1) that(1)]
    by (simp add: entry(2))
  then show ?thesis
    using q(2) by (auto simp: removeClient_eq [OF inv c] output_ok_def)
qed

lemma removeClient_complete:
  assumes inv: "server_inv s" and "complete s"
    and i: "i < length (s_pollFds s)" "pf_fd (s_pollFds s ! i) \<noteq> s_listenerFd s"
  shows "complete (removeClient s i)"
proof -
  obtain c where c: "findClient s (pf_fd (s_pollFds s ! i)) = Some c"
    using polled_client [OF inv i] by blast
  show ?thesis
    using quitBroadcast.complete [OF assms(2)] by (simp add: removeClient_eq [OF inv c] complete_def)
qed

lemma removeClient_poll:
  assumes inv: "server_inv s"
    and i: "i < length (s_pollFds s)" "pf_fd (s_pollFds s ! i) \<noteq> s_listenerFd s"
  shows "map pf_fd (s_pollFds (removeClient s i)) = erase_at i (map pf_fd (s_pollFds s))"
    "s_listenerFd (removeClient s i) = s_listenerFd s"
    "s_openFds (removeClient s i) = remove1 (pf_fd (s_pollFds s ! i)) (s_openFds s)"
    "s_password (removeClient s i) = s_password s"
proof -
  obtain c where c: "findClient s (pf_fd (s_pollFds s ! i)) = Some c"
    using polled_client [OF inv i] by blast
  show "map pf_fd (s_pollFds (removeClient s i)) = erase_at i (map pf_fd (s_pollFds s))"
    "s_listenerFd (removeClient s i) = s_listenerFd s"
    "s_openFds (removeClient s i) = remove1 (pf_fd (s_pollFds s ! i)) (s_openFds s)"
    "s_password (removeClient s i) = s_password s"
    by (simp_all add: removeClient_eq [OF inv c] erase_at_map quitBroadcast.frame)
qed

section \<open>Accepting a client keeps the invariant\<close>

text \<open>
  What the manual of \<open>accept\<close> promises: it fails with \<open>-1\<close>, or returns a nonnegative
  descriptor that was not open before.
\<close>

definition accept_ok :: "server \<Rightarrow> int \<Rightarrow> bool" where
  "accept_ok s r \<longleftrightarrow> r = -1 \<or> 0 \<le> r \<and> r \<notin> set (s_openFds s)"

text \<open>The server with one more client.\<close>

definition accepted :: "descriptor \<Rightarrow> server \<Rightarrow> server" where
  "accepted fd s =
     s\<lparr>s_clients := om_put fd (new_client fd) (s_clients s),
       s_pollFds := s_pollFds s @ [\<lparr>pf_fd = fd, pf_events = POLLIN, pf_revents = 0\<rparr>],
       s_openFds := fd # s_openFds s\<rparr>"

lemma om_erase_absent: "om_find m k = None \<Longrightarrow> om_erase k m = m"
  by (auto simp: om_find_None_iff om_erase_def om_keys_def filter_id_conv)

lemma fresh_fd:
  assumes "server_inv s" "r \<notin> set (s_openFds s)"
  shows "om_find (s_clients s) r = None" "r \<notin> set (map pf_fd (s_pollFds s))" "r \<noteq> s_listenerFd s"
    "findClient s r = None"
  using assms by (simp_all add: server_inv_def fds_ok_def poll_ok_def om_find_None_iff findClient_def del: set_map)

lemma acceptClient_eq:
  assumes inv: "server_inv s" and ok: "accept_ok s r"
  shows "acceptClient r nonblock_ok s =
    (if r = -1 then (None, s)
     else if \<not> nonblock_ok then (Some ''fcntl() failed'', s)
     else (None, accepted r s))"
proof (cases "r = -1")
  case True
  then show ?thesis
    by (simp add: acceptClient_def)
next
  case False
  then have r: "r \<notin> set (s_openFds s)"
    using ok by (simp add: accept_ok_def)
  note fresh = fresh_fd [OF inv r]
  have "\<not> (\<exists>p\<in>set (s_pollFds s). pf_fd p = r)"
    using fresh(2) by auto
  with False fresh show ?thesis
    by (simp add: acceptClient_def Let_def close_fd_def findClient_def om_erase_absent addPollFd_def
        om_insert_def accepted_def)
qed

lemma findClient_accepted [simp]:
  "findClient (accepted fd s) g = (if g = fd then Some (new_client fd) else findClient s g)"
  by (simp add: accepted_def findClient_def)

lemma accepted_sel [simp]:
  "s_listenerFd (accepted fd s) = s_listenerFd s" "s_password (accepted fd s) = s_password s"
  "s_openFds (accepted fd s) = fd # s_openFds s" "s_channels (accepted fd s) = s_channels s"
  "s_nicknameIndex (accepted fd s) = s_nicknameIndex s"
  "s_clients (accepted fd s) = om_put fd (new_client fd) (s_clients s)"
  "map pf_fd (s_pollFds (accepted fd s)) = map pf_fd (s_pollFds s) @ [fd]"
  by (simp_all add: accepted_def)

lemma new_client_sel [simp]:
  "c_fd (new_client fd) = fd" "c_registered (new_client fd) = False" "c_nickname (new_client fd) = []"
  "c_outputBuffer (new_client fd) = []" "c_inputBuffer (new_client fd) = []"
  by (simp_all add: new_client_def)

lemma server_inv_accepted:
  assumes inv: "server_inv s" and fd: "fd \<notin> set (s_openFds s)" "0 \<le> fd"
  shows "server_inv (accepted fd s)"
proof -
  note fresh = fresh_fd [OF inv fd(1)]
  have "channel_inv (accepted fd s) key ch" if "channel_inv s key ch" for key ch
    by (rule channel_inv_cong [OF _ _ that]) (use fresh in auto)
  then have "channels_ok (accepted fd s)"
    using inv by (simp add: server_inv_def channels_ok_def)
  moreover have "clients_ok (accepted fd s)"
    using inv by (auto simp: server_inv_def clients_ok_def split: if_splits)
  moreover have "index_ok (accepted fd s)"
    using inv fresh(4) by (auto simp: server_inv_def index_ok_def)
  moreover have "poll_ok (accepted fd s)"
    using inv fresh unfolding server_inv_def poll_ok_def by (simp del: set_map) auto
  moreover have "fds_ok (accepted fd s)"
    using inv fd by (auto simp: server_inv_def fds_ok_def)
  ultimately show ?thesis
    by (simp add: server_inv_def)
qed

lemma accept_inv: "\<lbrakk>server_inv s; accept_ok s r\<rbrakk> \<Longrightarrow> server_inv (snd (acceptClient r nonblock_ok s))"
  by (auto simp: acceptClient_eq accept_ok_def server_inv_accepted)

lemma accepted_output_ok:
  assumes inv: "server_inv s" and ok: "output_ok s"
  shows "output_ok (accepted fd s)"
proof -
  have "armed (s_pollFds (accepted fd s)) (c_fd c)"
    if "findClient s g = Some c" "g \<noteq> fd" "c_outputBuffer c \<noteq> []" for g c
    using that output_armed [OF inv ok that(1,3)] client_fd_found [OF inv that(1)]
    by (simp add: accepted_def armed_append)
  with ok show ?thesis
    unfolding output_ok_def by (auto split: if_splits)
qed

lemma accept_bounded:
  "\<lbrakk>server_inv s; accept_ok s r; output_ok s\<rbrakk> \<Longrightarrow> output_ok (snd (acceptClient r nonblock_ok s))"
  by (auto simp: acceptClient_eq accepted_output_ok)

lemma accept_complete:
  "\<lbrakk>server_inv s; accept_ok s r; complete s\<rbrakk> \<Longrightarrow> complete (snd (acceptClient r nonblock_ok s))"
  by (auto simp: acceptClient_eq complete_def isRegistrationReady_def)

section \<open>Writing keeps the invariant\<close>

lemma flush_inv: "\<lbrakk>server_inv s; i < length (s_pollFds s)\<rbrakk> \<Longrightarrow> server_inv (snd (flushClientOutput send s i))"
  using server_inv_skel [OF skel_flush] by blast

lemma consumeOutput_length: "length (c_outputBuffer (consumeOutput n c)) \<le> length (c_outputBuffer c)"
  by (simp add: consumeOutput_def)

lemma consumeOutput_fd [simp]: "c_fd (consumeOutput n c) = c_fd c"
  by (simp add: consumeOutput_def)

lemma consume_output_ok: "output_ok s \<Longrightarrow> output_ok (on_client fd (consumeOutput n) s)"
  by (rule bounded_on_client) (simp_all add: consumeOutput_length)

lemma clear_output_ok:
  assumes inv: "server_inv s" and ok: "output_ok s"
    and sent: "findClient s (pf_fd (s_pollFds s ! i)) = Some c" "c_outputBuffer c = []"
  shows "output_ok (clear_pollout i s)"
proof -
  have "armed (s_pollFds (clear_pollout i s)) (c_fd d)"
    if d: "findClient s g = Some d" "c_outputBuffer d \<noteq> []" for g d
  proof -
    have "c_fd d \<noteq> pf_fd (s_pollFds s ! i)"
      using client_fd_found [OF inv d(1)] d sent by auto
    then have "armed (s_pollFds (clear_pollout i s)) (c_fd d) = armed (s_pollFds s) (c_fd d)"
      unfolding clear_pollout_def by (simp add: armed_update)
    then show ?thesis
      using ok d by (simp add: output_ok_def)
  qed
  moreover have "findClient (clear_pollout i s) = findClient s"
    by (simp add: clear_pollout_def)
  ultimately show ?thesis
    using ok by (simp add: output_ok_def)
qed

lemma server_inv_consume: "server_inv s \<Longrightarrow> server_inv (on_client fd (consumeOutput n) s)"
  using server_inv_skel [OF skel_on_client [of "consumeOutput n" fd s]] by simp

lemma flush_bounded:
  assumes "server_inv s" "output_ok s"
  shows "output_ok (snd (flushClientOutput send s i))"
proof (cases "findClient s (pf_fd (s_pollFds s ! i))")
  case (Some c)
  let ?n = "nat (send (pf_fd (s_pollFds s ! i)) (getOutputData c))"
  let ?t = "on_client (pf_fd (s_pollFds s ! i)) (consumeOutput ?n) s"
  have "output_ok (clear_pollout i ?t)" if "c_outputBuffer (consumeOutput ?n c) = []"
    by (rule clear_output_ok [OF server_inv_consume consume_output_ok]) (use assms Some that in auto)
  moreover have "output_ok (clear_pollout i s)" if "c_outputBuffer c = []"
    using clear_output_ok assms Some that by blast
  ultimately show ?thesis
    using assms Some
    by (auto simp: flushClientOutput_def Let_def client_at_def hasOutput_def consume_output_ok)
qed (simp add: flushClientOutput_def assms)

lemma flush_complete: "\<lbrakk>complete s; i < length (s_pollFds s)\<rbrakk> \<Longrightarrow> complete (snd (flushClientOutput send s i))"
  using complete_skel_imp(2) [OF skel_flush [symmetric]] by blast

lemma flush_tables: "i < length (s_pollFds s) \<Longrightarrow> same_tables s (snd (flushClientOutput send s i))"
  using skel_cong [OF skel_flush [of i s send]] by (simp add: same_tables_def)

section \<open>What removing a client does to the others\<close>

lemma insert_peers_keys [simp]:
  "set (om_keys (insert_peers fd ms r)) = (set (om_keys ms) - {fd}) \<union> set (om_keys r)"
  by (induction fd ms r rule: insert_peers.induct) auto

lemma insert_peers_ok: "om_ok r \<Longrightarrow> om_ok (insert_peers fd ms r)"
  by (induction fd ms r rule: insert_peers.induct) auto

lemma quit_recipients_ok: "om_ok r \<Longrightarrow> om_ok (quit_recipients fd chs r)"
  by (induction fd chs r rule: quit_recipients.induct) (auto simp: insert_peers_ok)

lemma quit_recipients_keys:
  "os_mem (quit_recipients fd chs r) g \<longleftrightarrow>
     os_mem r g \<or> g \<noteq> fd \<and> (\<exists>(k, ch)\<in>set chs. hasMember ch fd \<and> hasMember ch g)"
  by (induction fd chs r rule: quit_recipients.induct)
    (auto simp: getMembers_def hasMember_def om_find_None_iff)

text \<open>The peers of a client: the others in its channels.\<close>

definition peers :: "server \<Rightarrow> descriptor \<Rightarrow> descriptor \<Rightarrow> bool" where
  "peers s fd g \<longleftrightarrow> (\<exists>(k, ch)\<in>set (s_channels s). hasMember ch fd \<and> hasMember ch g)"

definition quit_line :: "client \<Rightarrow> string" where
  "quit_line c = '':'' @ getPrefix c @ '' QUIT :''
     @ (if getDisconnectReason c = [] then ''Connection closed'' else getDisconnectReason c)"

lemma findClient_quit_broadcast:
  assumes "server_inv s" "findClient s fd = Some c"
  shows "findClient (quit_broadcast s fd) g =
    (if c_registered c \<and> g \<noteq> fd \<and> peers s fd g then map_option (deliver (quit_line c)) (findClient s g)
     else findClient s g)"
proof -
  have "distinct (om_keys (quit_recipients fd (s_channels s) []))"
    by (rule om_ok_distinct [OF quit_recipients_ok]) simp
  then show ?thesis
    using assms client_fd_found [OF assms]
    by (simp add: quit_broadcast_def Let_def client_at_def isRegistered_def getFd_def
        findClient_queue_to_each quit_recipients_keys peers_def quit_line_def)
qed

lemma findClient_removeClient:
  assumes inv: "server_inv s" and c: "findClient s (pf_fd (s_pollFds s ! i)) = Some c"
  shows "findClient (removeClient s i) g =
    (if g = pf_fd (s_pollFds s ! i) then None
     else if c_registered c \<and> peers s (pf_fd (s_pollFds s ! i)) g
       then map_option (deliver (quit_line c)) (findClient s g)
     else findClient s g)"
  by (simp add: removeClient_eq [OF inv c] findClient_quit_broadcast [OF inv c])

lemma deliver_flag: "c_disconnectRequested c \<Longrightarrow> c_disconnectRequested (deliver l c)"
  by (simp add: deliver_def)

end
