(* ===== verification/Irc_Loop.thy ===== *)
theory Irc_Loop
  imports Irc_Socket
begin

text \<open>
  The event loop: \<open>Server::run\<close> and \<open>removeDisconnectedClients\<close> of
  \<open>srcs/Server/Server.cpp\<close> and \<open>handleSignal\<close> of \<open>ServerUtils.cpp\<close>. The body of
  the \<open>for\<close> loop is \<open>scan_entry\<close>; \<open>run_step\<close> goes from one program point of
  \<open>run\<close> to the next, with the answers of the kernel as a parameter, and
  \<open>server_step\<close> adds that a signal may arrive at any program point. The locale
  \<open>loop_invariant\<close> is what a property of servers needs to hold in every reachable state.
\<close>

section \<open>Clients that asked to leave\<close>

lemma length_cleanup [simp]: "length (s_pollFds (cleanupClientIrcState s fd)) = length (s_pollFds s)"
proof -
  have "length (s_pollFds (queue_to_each r m s)) = length (s_pollFds s)" for r m
    by (metis length_map queue_to_each.frame(8))
  then show ?thesis
    by (simp add: cleanupClientIrcState_def Let_def split: option.split)
qed

lemma length_removeClient:
  "i < length (s_pollFds s) \<Longrightarrow> length (s_pollFds (removeClient s i)) = length (s_pollFds s) - 1"
  by (auto simp: removeClient_def Let_def erase_at_def delete_client_def close_fd_def split: option.split)

text \<open>The loop of \<open>removeDisconnectedClients\<close> from index \<open>i\<close> on.\<close>

function sweep_from :: "nat \<Rightarrow> server \<Rightarrow> server" where
  "sweep_from i s =
     (if i < length (s_pollFds s) then
        if pf_fd (s_pollFds s ! i) = s_listenerFd s then sweep_from (Suc i) s
        else (case findClient s (pf_fd (s_pollFds s ! i)) of
                None \<Rightarrow> sweep_from (Suc i) s
              | Some client \<Rightarrow>
                  if isDisconnectRequested client then sweep_from i (removeClient s i)
                  else sweep_from (Suc i) s)
      else s)"
  by pat_completeness auto
termination
  by (relation "measure (\<lambda>(i, s). length (s_pollFds s) - i)") (auto simp: length_removeClient)

declare sweep_from.simps [simp del]

definition removeDisconnectedClients :: "server \<Rightarrow> server" where
  "removeDisconnectedClients s = sweep_from 0 s"

section \<open>One entry of the poll list\<close>

text \<open>
  What the kernel answers while one program point is executed: the result of \<open>poll\<close> and the
  \<open>revents\<close> it stores for each descriptor, and the results of \<open>accept\<close>, \<open>fcntl\<close>,
  \<open>recv\<close> and \<open>send\<close>.
\<close>

record kernel =
  k_poll :: int
  k_revents :: "descriptor \<Rightarrow> short_int"
  k_accept :: int
  k_nonblock :: bool
  k_recv :: "descriptor \<Rightarrow> recv_result"
  k_send :: "descriptor \<Rightarrow> string \<Rightarrow> int"

text \<open>Lines 122 to 128.\<close>

definition scan_hangup :: "short_int \<Rightarrow> server \<Rightarrow> nat \<Rightarrow> server \<times> nat" where
  "scan_hangup events s i = (if events AND POLLHUP \<noteq> 0 then (removeClient s i, i) else (s, Suc i))"

text \<open>Lines 113 to 128.\<close>

definition scan_output :: "kernel \<Rightarrow> short_int \<Rightarrow> server \<Rightarrow> nat \<Rightarrow> server \<times> nat" where
  "scan_output k events s i =
     (if events AND POLLOUT \<noteq> 0 then
        (case flushClientOutput (k_send k) s i of
           (False, s') \<Rightarrow> (removeClient s' i, i)
         | (True, s') \<Rightarrow> scan_hangup events s' i)
      else scan_hangup events s i)"

text \<open>Lines 104 to 128.\<close>

definition scan_input :: "kernel \<Rightarrow> short_int \<Rightarrow> server \<Rightarrow> nat \<Rightarrow> server \<times> nat" where
  "scan_input k events s i =
     (if events AND POLLIN \<noteq> 0 then
        (case receiveFromClient (k_recv k) s i of
           (False, s') \<Rightarrow> (removeClient s' i, i)
         | (True, s') \<Rightarrow> scan_output k events s' i)
      else scan_output k events s i)"

text \<open>The body of the loop: an exception of \<open>acceptClient\<close>, the server and the next index.\<close>

definition scan_entry :: "kernel \<Rightarrow> server \<Rightarrow> nat \<Rightarrow> string option \<times> server \<times> nat" where
  "scan_entry k s i =
     (let events = pf_revents (s_pollFds s ! i) in
      if events = 0 then (None, s, Suc i)
      else if pf_fd (s_pollFds s ! i) = s_listenerFd s then
        if events AND POLLIN \<noteq> 0 then
          (case acceptClient (k_accept k) (k_nonblock k) s of (what, s') \<Rightarrow> (what, s', Suc i))
        else (None, s, Suc i)
      else if events AND (POLLERR OR POLLNVAL) \<noteq> 0 then (None, removeClient s i, i)
      else (None, scan_input k events s i))"

section \<open>The loop\<close>

text \<open>The program points of \<open>run\<close>: lines 59, 61, 78 (with the loop index) and 130, and its two ends.\<close>

datatype program_point = At_while | At_poll | At_scan nat | At_sweep | Finished | Threw string

record process =
  p_server :: server
  p_stopRequested :: bool
  p_at :: program_point

definition handleSignal :: "int \<Rightarrow> process \<Rightarrow> process" where
  "handleSignal signalNumber p = p\<lparr>p_stopRequested := True\<rparr>"

definition poll_fills :: "(descriptor \<Rightarrow> short_int) \<Rightarrow> server \<Rightarrow> server" where
  "poll_fills revents s = s\<lparr>s_pollFds := map (\<lambda>p. p\<lparr>pf_revents := revents (pf_fd p)\<rparr>) (s_pollFds s)\<rparr>"

definition run_step :: "kernel \<Rightarrow> process \<Rightarrow> process" where
  "run_step k p =
     (let s = p_server p in
      case p_at p of
        At_while \<Rightarrow> p\<lparr>p_at := if p_stopRequested p then Finished else At_poll\<rparr>
      | At_poll \<Rightarrow>
          if k_poll k = -1 then
            p\<lparr>p_at := if p_stopRequested p then Finished else Threw ''poll() failed''\<rparr>
          else if k_poll k = 0 then p\<lparr>p_server := poll_fills (k_revents k) s, p_at := At_while\<rparr>
          else p\<lparr>p_server := poll_fills (k_revents k) s, p_at := At_scan 0\<rparr>
      | At_scan i \<Rightarrow>
          if i < length (s_pollFds s) \<and> \<not> p_stopRequested p then
            (case scan_entry k s i of
               (None, s', i') \<Rightarrow> p\<lparr>p_server := s', p_at := At_scan i'\<rparr>
             | (Some what, s', i') \<Rightarrow> p\<lparr>p_server := s', p_at := Threw what\<rparr>)
          else p\<lparr>p_at := At_sweep\<rparr>
      | At_sweep \<Rightarrow> p\<lparr>p_server := removeDisconnectedClients s, p_at := At_while\<rparr>
      | Finished \<Rightarrow> p
      | Threw what \<Rightarrow> p)"

text \<open>
  The whole run: the kernel's answers, one for each program point passed, and the signals, in the
  order they come.
\<close>

datatype event = Answer kernel | Signal int

fun process_event :: "event \<Rightarrow> process \<Rightarrow> process" where
  "process_event (Answer k) p = run_step k p"
| "process_event (Signal signalNumber) p = handleSignal signalNumber p"

definition run :: "event list \<Rightarrow> process \<Rightarrow> process" where
  "run events p = fold process_event events p"

text \<open>Every answer of the kernel to \<open>accept\<close> is one its manual allows.\<close>

fun event_ok :: "process \<Rightarrow> event \<Rightarrow> bool" where
  "event_ok p (Answer k) = accept_ok (p_server p) (k_accept k)"
| "event_ok p (Signal signalNumber) = True"

fun events_ok :: "event list \<Rightarrow> process \<Rightarrow> bool" where
  "events_ok [] p = True"
| "events_ok (e # es) p = (event_ok p e \<and> events_ok es (process_event e p))"

section \<open>Steps and reachable states\<close>

inductive server_step :: "process \<Rightarrow> process \<Rightarrow> bool" where
  step: "accept_ok (p_server p) (k_accept k) \<Longrightarrow> server_step p (run_step k p)"
| signal: "server_step p (handleSignal signalNumber p)"

inductive reachable :: "process \<Rightarrow> process \<Rightarrow> bool" where
  start: "reachable p p"
| next_step: "\<lbrakk>reachable p q; server_step q r\<rbrakk> \<Longrightarrow> reachable p r"

inductive_cases server_stepE: "server_step p q"
fun_cases events_ok_ConsE: "events_ok (e # es) p"

section \<open>The loop keeps the invariant\<close>

lemma same_tables_poll:
  assumes "same_tables s t"
  shows "length (s_pollFds t) = length (s_pollFds s)"
    and "i < length (s_pollFds s) \<Longrightarrow> pf_fd (s_pollFds t ! i) = pf_fd (s_pollFds s ! i)"
proof -
  have eq: "map pf_fd (s_pollFds t) = map pf_fd (s_pollFds s)"
    using assms by (simp add: same_tables_def)
  from arg_cong [OF this, of length] show len: "length (s_pollFds t) = length (s_pollFds s)"
    by simp
  show "i < length (s_pollFds s) \<Longrightarrow> pf_fd (s_pollFds t ! i) = pf_fd (s_pollFds s ! i)"
    using arg_cong [OF eq, of "\<lambda>ps. ps ! i"] len by simp
qed

text \<open>A client entry of the poll list: the index of a descriptor that is not the listener's.\<close>

definition client_entry :: "server \<Rightarrow> nat \<Rightarrow> bool" where
  "client_entry s i \<longleftrightarrow> i < length (s_pollFds s) \<and> pf_fd (s_pollFds s ! i) \<noteq> s_listenerFd s"

lemma client_entry_tables: "\<lbrakk>client_entry s i; same_tables s t\<rbrakk> \<Longrightarrow> client_entry t i"
  using same_tables_poll [of s t] by (simp add: client_entry_def) (simp add: same_tables_def)

lemma client_entry_receive: "\<lbrakk>client_entry s i; receiveFromClient r s i = (b, t)\<rbrakk> \<Longrightarrow> client_entry t i"
  using client_entry_tables [OF _ receive_tables [of s r i]] by simp

lemma client_entry_flush: "\<lbrakk>client_entry s i; flushClientOutput r s i = (b, t)\<rbrakk> \<Longrightarrow> client_entry t i"
  using client_entry_tables [OF _ flush_tables [of i s r]] by (simp add: client_entry_def)

text \<open>
  The interface between the operations on one connection and the loop: what a property of the
  server must survive to hold in every reachable state. A read that asks for the removal of its
  client only has to give it back together with that removal.
\<close>

locale loop_invariant =
  fixes I :: "server \<Rightarrow> bool"
  assumes remove: "\<lbrakk>I s; client_entry s i\<rbrakk> \<Longrightarrow> I (removeClient s i)"
    and receive: "\<lbrakk>I s; client_entry s i; receiveFromClient r s i = (True, t)\<rbrakk> \<Longrightarrow> I t"
    and last_receive: "\<lbrakk>I s; client_entry s i; receiveFromClient r s i = (False, t)\<rbrakk> \<Longrightarrow> I (removeClient t i)"
    and flush: "\<lbrakk>I s; client_entry s i; flushClientOutput w s i = (b, t)\<rbrakk> \<Longrightarrow> I t"
    and accept: "\<lbrakk>I s; accept_ok s a; acceptClient a nb s = (what, t)\<rbrakk> \<Longrightarrow> I t"
    and poll: "I s \<Longrightarrow> I (poll_fills e s)"
begin

lemma hangup: "\<lbrakk>I s; client_entry s i\<rbrakk> \<Longrightarrow> I (fst (scan_hangup e s i))"
  by (simp add: scan_hangup_def remove)

lemma scan_output: "\<lbrakk>I s; client_entry s i\<rbrakk> \<Longrightarrow> I (fst (scan_output k e s i))"
  by (auto simp: scan_output_def hangup dest: flush client_entry_flush intro: remove hangup
      split: prod.split bool.split)

lemma scan_input: "\<lbrakk>I s; client_entry s i\<rbrakk> \<Longrightarrow> I (fst (scan_input k e s i))"
  by (auto simp: scan_input_def scan_output dest: receive client_entry_receive intro: last_receive scan_output
      split: prod.split bool.split)

lemma entry:
  "\<lbrakk>I s; i < length (s_pollFds s); accept_ok s (k_accept k)\<rbrakk> \<Longrightarrow> I (fst (snd (scan_entry k s i)))"
  using scan_input [of s i] remove [of s i]
  by (auto simp: scan_entry_def Let_def client_entry_def intro: accept split: prod.split)

lemma sweep: "I s \<Longrightarrow> I (sweep_from i s)"
proof (induction i s rule: sweep_from.induct)
  case (1 i s)
  then show ?case
    by (subst sweep_from.simps) (auto simp: client_entry_def remove split: option.split)
qed

lemma step:
  assumes "I (p_server p)" "accept_ok (p_server p) (k_accept k)"
  shows "I (p_server (run_step k p))"
proof (cases "p_at p")
  case (At_scan i)
  then show ?thesis
    using assms entry [of "p_server p" i k] by (auto simp: run_step_def Let_def split: prod.split option.split)
qed (use assms in \<open>simp_all add: run_step_def Let_def poll sweep removeDisconnectedClients_def\<close>)

lemma reachable: "\<lbrakk>reachable p q; I (p_server p)\<rbrakk> \<Longrightarrow> I (p_server q)"
proof (induction rule: reachable.induct)
  case (next_step p q r)
  then have "I (p_server q)"
    by simp
  with \<open>server_step q r\<close> show ?case
    by (auto elim!: server_stepE simp: step handleSignal_def)
qed

end

text \<open>The tables, the output queues and the registration flags agree in every reachable state.\<close>

definition good :: "server \<Rightarrow> bool" where
  "good s \<longleftrightarrow> server_inv s \<and> output_ok s \<and> complete s"

lemma good_remove: "\<lbrakk>good s; client_entry s i\<rbrakk> \<Longrightarrow> good (removeClient s i)"
  by (simp add: good_def client_entry_def removeClient_inv removeClient_bounded removeClient_complete)

lemma good_receive:
  assumes "good s" "client_entry s i" "receiveFromClient r s i = (b, t)"
  shows "good t \<and> client_entry t i"
  using receive_inv [of s r i] receive_bounded [of s r i] receive_complete [of s r i]
    client_entry_receive [OF assms(2,3)] assms by (simp add: good_def)

lemma good_flush:
  assumes "good s" "client_entry s i" "flushClientOutput r s i = (b, t)"
  shows "good t \<and> client_entry t i"
  using flush_inv [of s i r] flush_bounded [of s r i] flush_complete [of s i r]
    client_entry_flush [OF assms(2,3)] assms by (simp add: good_def client_entry_def)

lemma good_accept: "\<lbrakk>good s; accept_ok s r; acceptClient r b s = (what, t)\<rbrakk> \<Longrightarrow> good t"
  using accept_inv [of s r b] accept_bounded [of s r b] accept_complete [of s r b] by (simp add: good_def)

lemma skel_poll_fills: "skel (poll_fills e s) = skel s"
  unfolding poll_fills_def by (rule skel_pollFds) (simp add: quiet_pollfd_def)

lemma output_ok_poll_fills [simp]: "output_ok (poll_fills e s) = output_ok s"
  by (simp add: output_ok_def poll_fills_def armed_map_revents)

lemma good_poll: "good s \<Longrightarrow> good (poll_fills e s)"
  using server_inv_skel [OF skel_poll_fills [of e s]] complete_skel_imp(2) [OF skel_poll_fills [of e s, symmetric]]
  by (simp add: good_def)

interpretation good_loop: loop_invariant good
  by unfold_locales (auto simp: good_remove good_poll intro: good_accept good_remove dest: good_receive good_flush)

lemmas good_entry = good_loop.entry
lemmas good_step = good_loop.step
lemmas good_reachable = good_loop.reachable

section \<open>The sweep removes everybody who asked to leave\<close>

lemma drop_erase_at: "i < length xs \<Longrightarrow> drop i (erase_at i xs) = drop (Suc i) xs"
  by (simp add: erase_at_def)

lemma removeClient_at:
  assumes "good s" "client_entry s i"
  shows "\<exists>c. findClient s (pf_fd (s_pollFds s ! i)) = Some c"
    "map pf_fd (s_pollFds (removeClient s i)) = erase_at i (map pf_fd (s_pollFds s))"
    "s_listenerFd (removeClient s i) = s_listenerFd s"
  using assms polled_client [of s i] removeClient_poll [of s i] by (auto simp: good_def client_entry_def)

lemma removeClient_gone:
  assumes "good s" "client_entry s i"
  shows "findClient s g = None \<Longrightarrow> findClient (removeClient s i) g = None"
    "findClient (removeClient s i) (pf_fd (s_pollFds s ! i)) = None"
    "\<lbrakk>findClient s g = Some c; c_disconnectRequested c; g \<noteq> pf_fd (s_pollFds s ! i)\<rbrakk> \<Longrightarrow>
     \<exists>d. findClient (removeClient s i) g = Some d \<and> c_disconnectRequested d"
  using assms removeClient_at(1) [OF assms] findClient_removeClient [of s i]
  by (auto simp: good_def deliver_flag)

lemma sweep_keeps_None: "\<lbrakk>good s; findClient s g = None\<rbrakk> \<Longrightarrow> findClient (sweep_from i s) g = None"
proof (induction i s rule: sweep_from.induct)
  case (1 i s)
  then show ?case
    using good_remove [of s i] removeClient_gone(1) [of s i g]
    by (subst sweep_from.simps) (auto simp: client_entry_def split: option.split)
qed

lemma sweep_removes:
  "\<lbrakk>good s; findClient s g = Some c; c_disconnectRequested c; g \<noteq> s_listenerFd s;
    g \<in> set (drop i (map pf_fd (s_pollFds s)))\<rbrakk> \<Longrightarrow> findClient (sweep_from i s) g = None"
proof (induction i s arbitrary: c rule: sweep_from.induct)
  case (1 i s)
  note prems = "1.prems"
  let ?fd = "pf_fd (s_pollFds s ! i)"
  have i: "i < length (s_pollFds s)"
    using prems(5) by (cases "i < length (s_pollFds s)") simp_all
  have later: "g \<in> set (drop (Suc i) (map pf_fd (s_pollFds s)))" if "g \<noteq> ?fd"
    using prems(5) i that by (simp flip: Cons_nth_drop_Suc)
  show ?case
  proof (cases "?fd = s_listenerFd s")
    case True
    then show ?thesis
      using 1 i later by (subst sweep_from.simps) auto
  next
    case False
    then have entry: "client_entry s i"
      using i by (simp add: client_entry_def)
    obtain d where d: "findClient s ?fd = Some d"
      using removeClient_at(1) [OF prems(1) entry] by blast
    show ?thesis
    proof (cases "c_disconnectRequested d")
      case True
      let ?t = "removeClient s i"
      have sweep: "sweep_from i s = sweep_from i ?t"
        using i False d True by (subst sweep_from.simps) (simp add: isDisconnectRequested_def)
      have good: "good ?t"
        by (rule good_remove [OF prems(1) entry])
      show ?thesis
      proof (cases "g = ?fd")
        case True
        then show ?thesis
          using removeClient_gone(2) [OF prems(1) entry] sweep sweep_keeps_None [OF good] by simp
      next
        case other: False
        obtain e where e: "findClient ?t g = Some e" "c_disconnectRequested e"
          using removeClient_gone(3) [OF prems(1) entry prems(2,3) other] by blast
        have "g \<in> set (drop i (map pf_fd (s_pollFds ?t)))"
          using later [OF other] i by (simp add: removeClient_at(2) [OF prems(1) entry] drop_erase_at)
        then show ?thesis
          using 1(3) [OF i False d _ good e] True prems(4) removeClient_at(3) [OF prems(1) entry] sweep
          by (simp add: isDisconnectRequested_def)
      qed
    next
      case unflagged: False
      then have "g \<noteq> ?fd"
        using d prems(2,3) by auto
      then show ?thesis
        using i False d unflagged 1(4) [OF i False d _ prems(1-4)] later
        by (subst sweep_from.simps) (simp add: isDisconnectRequested_def)
    qed
  qed
qed

section \<open>The loop over the poll list ends\<close>

text \<open>
  How many iterations are left at index \<open>i\<close>: one for each entry, and one more for a listener
  entry, since accepting appends an entry.
\<close>

definition scan_budget :: "server \<Rightarrow> nat \<Rightarrow> nat" where
  "scan_budget s i =
     length (s_pollFds s) - i + count_list (drop i (map pf_fd (s_pollFds s))) (s_listenerFd s)"

text \<open>An iteration moves to the next entry or removes the current one.\<close>

definition scan_shape :: "server \<Rightarrow> nat \<Rightarrow> server \<Rightarrow> nat \<Rightarrow> bool" where
  "scan_shape s i t j \<longleftrightarrow> s_listenerFd t = s_listenerFd s
     \<and> (map pf_fd (s_pollFds t) = map pf_fd (s_pollFds s) \<and> j = Suc i
        \<or> map pf_fd (s_pollFds t) = erase_at i (map pf_fd (s_pollFds s)) \<and> j = i)"

lemma scan_shape_tables: "\<lbrakk>same_tables r s; scan_shape s i t j\<rbrakk> \<Longrightarrow> scan_shape r i t j"
  by (simp add: scan_shape_def same_tables_def)

lemma scan_shape_remove: "\<lbrakk>good s; client_entry s i\<rbrakk> \<Longrightarrow> scan_shape s i (removeClient s i) i"
  by (simp add: scan_shape_def removeClient_at)

lemma scan_shape_hangup:
  "\<lbrakk>good s; client_entry s i\<rbrakk> \<Longrightarrow> scan_shape s i (fst (scan_hangup e s i)) (snd (scan_hangup e s i))"
  by (simp add: scan_hangup_def scan_shape_remove) (simp add: scan_shape_def)

lemma scan_shape_output:
  assumes "good s" "client_entry s i"
  shows "scan_shape s i (fst (scan_output k e s i)) (snd (scan_output k e s i))"
proof (cases "flushClientOutput (k_send k) s i")
  case (Pair b t)
  have "same_tables s t"
    using flush_tables [of i s "k_send k"] assms(2) Pair by (simp add: client_entry_def)
  with good_flush [OF assms Pair] have "scan_shape s i (removeClient t i) i"
    "scan_shape s i (fst (scan_hangup e t i)) (snd (scan_hangup e t i))"
    using scan_shape_tables scan_shape_remove scan_shape_hangup by blast+
  with Pair show ?thesis
    by (cases b) (simp_all add: scan_output_def scan_shape_hangup [OF assms])
qed

lemma scan_shape_input:
  assumes "good s" "client_entry s i"
  shows "scan_shape s i (fst (scan_input k e s i)) (snd (scan_input k e s i))"
proof (cases "receiveFromClient (k_recv k) s i")
  case (Pair b t)
  have "same_tables s t"
    using receive_tables [of s "k_recv k" i] Pair by simp
  with good_receive [OF assms Pair] have "scan_shape s i (removeClient t i) i"
    "scan_shape s i (fst (scan_output k e t i)) (snd (scan_output k e t i))"
    using scan_shape_tables scan_shape_remove scan_shape_output by blast+
  with Pair show ?thesis
    by (cases b) (simp_all add: scan_input_def scan_shape_output [OF assms])
qed

lemma scan_budget_shape:
  assumes "i < length (s_pollFds s)" "scan_shape s i t j"
  shows "scan_budget t j < scan_budget s i"
proof -
  let ?xs = "map pf_fd (s_pollFds s)" and ?ys = "map pf_fd (s_pollFds t)" and ?l = "s_listenerFd s"
  have "count_list (drop i ?xs) ?l \<ge> count_list (drop (Suc i) ?xs) ?l"
    using assms(1) by (simp flip: Cons_nth_drop_Suc)
  moreover have "drop j ?ys = drop (Suc i) ?xs \<and> length ?ys - j < length ?xs - i"
    using assms(2)
  proof (unfold scan_shape_def, elim conjE disjE)
    assume "?ys = erase_at i ?xs" "j = i"
    with assms(1) show ?thesis
      by (simp add: drop_erase_at) (simp add: erase_at_def)
  qed (use assms(1) in simp)
  ultimately show ?thesis
    using assms(2) by (simp add: scan_budget_def scan_shape_def)
qed

lemma scan_budget_accept:
  assumes "good s" "accept_ok s r" "i < length (s_pollFds s)" "pf_fd (s_pollFds s ! i) = s_listenerFd s"
    and "acceptClient r b s = (what, t)"
  shows "scan_budget t (Suc i) < scan_budget s i"
proof -
  let ?xs = "map pf_fd (s_pollFds s)"
  have split: "drop i ?xs = s_listenerFd s # drop (Suc i) ?xs"
    using assms(3,4) by (metis Cons_nth_drop_Suc length_map nth_map)
  have "s_listenerFd t = s_listenerFd s \<and> (map pf_fd (s_pollFds t) = ?xs
      \<or> (\<exists>fd. fd \<noteq> s_listenerFd s \<and> map pf_fd (s_pollFds t) = ?xs @ [fd]))"
    using assms fresh_fd(3) [of s r] acceptClient_eq [of s r b]
    by (auto simp: good_def accept_ok_def split: if_splits)
  moreover from this have "length (s_pollFds t) \<le> Suc (length (s_pollFds s))"
    by (metis Suc_n_not_le_n length_append_singleton length_map nle_le)
  ultimately show ?thesis
    using assms(3) by (auto simp: scan_budget_def split)
qed

lemma scan_entry_budget:
  assumes "good s" "i < length (s_pollFds s)" "accept_ok s (k_accept k)" "scan_entry k s i = (what, t, j)"
  shows "scan_budget t j < scan_budget s i"
proof (cases "pf_fd (s_pollFds s ! i) = s_listenerFd s")
  case True
  have "scan_shape s i s (Suc i)"
    by (simp add: scan_shape_def)
  then show ?thesis
    using assms True scan_budget_accept [OF assms(1,3,2) True] scan_budget_shape [OF assms(2)]
    by (auto simp: scan_entry_def Let_def split: if_splits prod.splits)
next
  case False
  then have entry: "client_entry s i"
    using assms(2) by (simp add: client_entry_def)
  have "scan_shape s i s (Suc i)"
    by (simp add: scan_shape_def)
  then have "scan_shape s i t j"
    using assms(4) False scan_shape_remove [OF assms(1) entry] scan_shape_input [OF assms(1) entry]
    by (auto simp: scan_entry_def Let_def split: if_splits) (metis fst_conv snd_conv)
  then show ?thesis
    by (rule scan_budget_shape [OF assms(2)])
qed

lemma count_list_distinct: "distinct xs \<Longrightarrow> count_list xs x \<le> 1"
  by (induction xs) (auto simp: count_list_0_iff)

lemma scan_budget_start:
  assumes "good s"
  shows "scan_budget s 0 \<le> Suc (length (s_pollFds s))"
proof -
  have "distinct (map pf_fd (s_pollFds s))"
    using assms by (simp add: good_def server_inv_def poll_ok_def)
  then have "count_list (map pf_fd (s_pollFds s)) (s_listenerFd s) \<le> 1"
    by (rule count_list_distinct)
  then show ?thesis
    by (simp add: scan_budget_def)
qed

definition scan_ended :: "process \<Rightarrow> bool" where
  "scan_ended p \<longleftrightarrow> (case p_at p of At_sweep \<Rightarrow> True | Threw what \<Rightarrow> True | _ \<Rightarrow> False)"

fun is_answer :: "event \<Rightarrow> bool" where
  "is_answer (Answer k) = True"
| "is_answer (Signal signalNumber) = False"

lemma good_event: "\<lbrakk>good (p_server p); event_ok p e\<rbrakk> \<Longrightarrow> good (p_server (process_event e p))"
  by (cases e) (simp_all add: good_step handleSignal_def)

lemma scan_step_cases:
  assumes "good (p_server p)" "p_at p = At_scan i" "accept_ok (p_server p) (k_accept k)"
  shows "scan_ended (run_step k p)
    \<or> (\<exists>j. p_at (run_step k p) = At_scan j \<and> scan_budget (p_server (run_step k p)) j < scan_budget (p_server p) i)"
proof (cases "i < length (s_pollFds (p_server p)) \<and> \<not> p_stopRequested p")
  case True
  obtain what t j where e: "scan_entry k (p_server p) i = (what, t, j)"
    by (cases "scan_entry k (p_server p) i") auto
  with True assms show ?thesis
    using scan_entry_budget [OF assms(1) _ assms(3) e]
    by (cases what) (simp_all add: run_step_def Let_def scan_ended_def)
qed (use assms in \<open>auto simp: run_step_def Let_def scan_ended_def\<close>)

lemma scan_ends:
  "\<lbrakk>good (p_server p); p_at p = At_scan i; events_ok es p;
    scan_budget (p_server p) i < length (filter is_answer es)\<rbrakk> \<Longrightarrow>
   \<exists>n\<le>length es. scan_ended (run (take n es) p)"
proof (induction es arbitrary: p i)
  case (Cons e es)
  have continue: "\<exists>n\<le>length (e # es). scan_ended (run (take n (e # es)) p)"
    if "\<exists>n\<le>length es. scan_ended (run (take n es) (process_event e p))"
    using that by (metis Suc_le_mono length_Cons run_def fold_simps(2) take_Suc_Cons)
  have good: "good (p_server (process_event e p))"
    using Cons.prems(3) by (elim events_ok_ConsE) (simp add: good_event Cons.prems(1))
  show ?case
  proof (cases e)
    case (Answer k)
    consider "scan_ended (run_step k p)" | j where "p_at (run_step k p) = At_scan j"
      "scan_budget (p_server (run_step k p)) j < scan_budget (p_server p) i"
      using scan_step_cases [OF Cons.prems(1,2), of k] Cons.prems(3) Answer by auto
    then show ?thesis
    proof cases
      case 1
      then have "scan_ended (run (take 0 es) (process_event e p))"
        by (simp add: run_def Answer)
      then show ?thesis
        using continue by blast
    next
      case (2 j)
      then show ?thesis
        using Cons.IH [OF good, of j] Cons.prems Answer continue by simp
    qed
  next
    case (Signal n)
    then show ?thesis
      using Cons.IH [OF good, of i] Cons.prems continue by (simp add: handleSignal_def)
  qed
qed simp

lemma reachable_run: "events_ok es p \<Longrightarrow> reachable q p \<Longrightarrow> reachable q (run es p)"
proof (induction es arbitrary: p)
  case (Cons e es)
  have "server_step p (process_event e p)"
    using Cons.prems(1) by (cases e) (auto intro: server_step.intros)
  with Cons show ?case
    by (simp add: run_def) (metis next_step)
qed (simp add: run_def)

end
