(* ===== verification/Irc_Main.thy ===== *)
theory Irc_Main
  imports Irc_Loop
begin

text \<open>
  Start and end of the program: \<open>createListeningSocket\<close> of
  \<open>srcs/Server/ServerSocket.cpp\<close>, \<open>installSignalHandlers\<close> of \<open>ServerUtils.cpp\<close>,
  the constructor and destructor of \<open>Server\<close>, \<open>checkPort\<close> and \<open>main\<close> of
  \<open>srcs/main.cpp\<close>. The results of the system calls made during the start are the record
  \<open>syscalls\<close>.
\<close>

section \<open>The port argument\<close>

definition checkPort :: "string \<Rightarrow> short_int option" where
  "checkPort text =
     (case extract_unsigned text of
        None \<Rightarrow> None
      | Some (value, rest) \<Rightarrow>
          if extract_char rest \<noteq> None then None
          else if value = 0 \<or> 65535 < value then None
          else Some (ucast value))"

lemma checkPort_Some:
  assumes "checkPort text = Some port"
  shows "\<exists>v rest. extract_unsigned text = Some (v, rest) \<and> (\<forall>c\<in>set rest. is_space c)
    \<and> 1 \<le> unat v \<and> unat v \<le> 65535 \<and> unat port = unat v"
proof -
  obtain v rest where e: "extract_unsigned text = Some (v, rest)"
    using assms by (auto simp: checkPort_def split: option.splits)
  then have v: "extract_char rest = None" "v \<noteq> 0" "\<not> 65535 < v" "port = ucast v"
    using assms by (cases "extract_char rest"; auto simp: checkPort_def split: if_splits)+
  then have "unat v \<noteq> 0" "unat v \<le> 65535"
    by (auto simp: word_less_nat_alt unat_eq_zero)
  moreover from this have "unat port = unat v"
    using v(4) by (simp add: unsigned_ucast_eq take_bit_nat_eq_self)
  ultimately show ?thesis
    using v(1) e by (auto simp: extract_char_None_iff)
qed

lemma checkPort_decimal:
  "checkPort (decimal n) = (if 1 \<le> n \<and> n \<le> 65535 then Some (of_nat n) else None)"
proof (cases "2 ^ 64 \<le> n")
  case False
  then have u: "unat (of_nat n :: size_word) = n"
    by (simp add: unat_of_nat take_bit_nat_eq_self)
  then have "(of_nat n :: size_word) = 0 \<longleftrightarrow> n = 0" "65535 < (of_nat n :: size_word) \<longleftrightarrow> 65535 < n"
    by (auto simp: word_less_nat_alt)
  moreover have "ucast (of_nat n :: size_word) = (of_nat n :: short_int)"
    using False by (simp add: unsigned_of_nat take_bit_nat_eq_self)
  ultimately show ?thesis
    using False by (auto simp: checkPort_def extract_decimal extract_char_def)
qed (simp add: checkPort_def extract_decimal)

section \<open>Start\<close>

record syscalls =
  sy_sigaction_int :: int
  sy_sigaction_term :: int
  sy_sigaction_pipe :: int
  sy_socket :: int
  sy_setsockopt :: int
  sy_fcntl :: int
  sy_bind :: "short_int \<Rightarrow> int"
  sy_listen :: int

definition installSignalHandlers :: "syscalls \<Rightarrow> string option" where
  "installSignalHandlers sy =
     (if sy_sigaction_int sy = -1 then Some ''sigaction() failed for SIGINT''
      else if sy_sigaction_term sy = -1 then Some ''sigaction() failed for SIGTERM''
      else if sy_sigaction_pipe sy = -1 then Some ''sigaction() failed for SIGPIPE''
      else None)"

definition createListeningSocket :: "syscalls \<Rightarrow> short_int \<Rightarrow> server \<Rightarrow> string option \<times> server" where
  "createListeningSocket sy port s =
     (let fd = sy_socket sy in
      if fd = -1 then (Some ''socket() failed'', s)
      else let s1 = s\<lparr>s_openFds := fd # s_openFds s\<rparr> in
        if sy_setsockopt sy < 0 then (Some ''setsockopt() failed'', close_fd fd s1)
        else if sy_fcntl sy = -1 then (Some ''fcntl() failed on listening socket'', close_fd fd s1)
        else if sy_bind sy port = -1
          then (Some ''bind() failed; port may already be in use'', close_fd fd s1)
        else if sy_listen sy = -1 then (Some ''listen() failed'', close_fd fd s1)
        else addPollFd (s1\<lparr>s_listenerFd := fd\<rparr>) fd POLLIN)"

definition empty_server :: "string \<Rightarrow> server" where
  "empty_server password =
     \<lparr>s_listenerFd = -1, s_password = password, s_pollFds = [], s_clients = [],
      s_nicknameIndex = [], s_channels = [], s_openFds = []\<rparr>"

text \<open>The constructor; an exception in it means that the destructor does not run.\<close>

definition construct_server :: "syscalls \<Rightarrow> short_int \<Rightarrow> string \<Rightarrow> string option \<times> server" where
  "construct_server sy port password =
     (let s = empty_server password in
      case installSignalHandlers sy of
        Some what \<Rightarrow> (Some what, s)
      | None \<Rightarrow> createListeningSocket sy port s)"

section \<open>End\<close>

text \<open>The destructor: every client closes its descriptor, then the listener is closed.\<close>

definition destroy_server :: "server \<Rightarrow> server" where
  "destroy_server s =
     (let s1 = s\<lparr>s_channels := []\<rparr>;
          s2 = fold delete_client (map snd (s_clients s1)) s1;
          s3 = s2\<lparr>s_clients := [], s_nicknameIndex := [], s_pollFds := []\<rparr>
      in if 0 \<le> s_listenerFd s3 then close_fd (s_listenerFd s3) s3 else s3)"

definition start_process :: "server \<Rightarrow> process" where
  "start_process s = \<lparr>p_server = s, p_stopRequested = False, p_at = At_while\<rparr>"

datatype exit_status = EXIT_SUCCESS | EXIT_FAILURE

text \<open>
  \<open>main\<close>: the exit status, if the program has ended after these events, and the descriptors
  that the server has open. Every exception the model has is a \<open>std::runtime_error\<close>.
\<close>

definition main_program :: "syscalls \<Rightarrow> event list \<Rightarrow> string list \<Rightarrow> exit_status option \<times> descriptor list" where
  "main_program sy events argv =
     (if length argv \<noteq> 3 then (Some EXIT_FAILURE, [])
      else (case checkPort (argv ! 1) of
        None \<Rightarrow> (Some EXIT_FAILURE, [])
      | Some port \<Rightarrow>
          if argv ! 2 = [] then (Some EXIT_FAILURE, [])
          else (case construct_server sy port (argv ! 2) of
            (Some what, s) \<Rightarrow> (Some EXIT_FAILURE, s_openFds s)
          | (None, s) \<Rightarrow>
              let p = run events (start_process s) in
              (case p_at p of
                 Finished \<Rightarrow> (Some EXIT_SUCCESS, s_openFds (destroy_server (p_server p)))
               | Threw what \<Rightarrow> (Some EXIT_FAILURE, s_openFds (destroy_server (p_server p)))
               | _ \<Rightarrow> (None, s_openFds (p_server p))))))"

section \<open>The start establishes the invariant\<close>

text \<open>What the manual of \<open>socket\<close> promises.\<close>

definition socket_ok :: "syscalls \<Rightarrow> bool" where
  "socket_ok sy \<longleftrightarrow> sy_socket sy = -1 \<or> 0 \<le> sy_socket sy"

definition listening_server :: "descriptor \<Rightarrow> string \<Rightarrow> server" where
  "listening_server fd password =
     \<lparr>s_listenerFd = fd, s_password = password,
      s_pollFds = [\<lparr>pf_fd = fd, pf_events = POLLIN, pf_revents = 0\<rparr>], s_clients = [],
      s_nicknameIndex = [], s_channels = [], s_openFds = [fd]\<rparr>"

lemma construct_cases:
  assumes "construct_server sy port password = (what, s)"
  shows "if what = None then s = listening_server (sy_socket sy) password \<and> sy_socket sy \<noteq> -1
    else s = empty_server password"
  using assms
  by (auto simp: construct_server_def createListeningSocket_def Let_def empty_server_def addPollFd_def
      close_fd_def listening_server_def split: option.splits if_splits)

lemma good_listening: "0 \<le> fd \<Longrightarrow> good (listening_server fd password)"
  by (simp add: good_def inv_defs complete_def output_ok_def listening_server_def findClient_def)

lemma good_construct:
  "\<lbrakk>socket_ok sy; construct_server sy port password = (None, s)\<rbrakk> \<Longrightarrow> good s"
  using construct_cases [of sy port password None s] good_listening
  by (auto simp: socket_ok_def)

lemma good_start:
  "\<lbrakk>socket_ok sy; construct_server sy port password = (None, s); reachable (start_process s) p\<rbrakk> \<Longrightarrow>
   good (p_server p)"
  using good_reachable good_construct by (force simp: start_process_def)

section \<open>The end closes every descriptor\<close>

lemma fold_delete_openFds:
  "s_openFds (fold delete_client cs s) = fold remove1 (filter (\<lambda>fd. 0 \<le> fd) (map c_fd cs)) (s_openFds s)"
  "s_listenerFd (fold delete_client cs s) = s_listenerFd s"
  by (induction cs arbitrary: s) (auto simp: delete_client_def close_fd_def)

lemma fold_remove1_set: "distinct xs \<Longrightarrow> set (fold remove1 ys xs) = set xs - set ys"
  by (induction ys arbitrary: xs) auto

lemma distinct_fold_remove1: "distinct xs \<Longrightarrow> distinct (fold remove1 ys xs)"
  by (induction ys arbitrary: xs) auto

lemma clients_fds:
  assumes "server_inv s"
  shows "map c_fd (map snd (s_clients s)) = om_keys (s_clients s)"
proof -
  have "c_fd (snd p) = fst p" if "p \<in> set (s_clients s)" for p
    using assms that om_in_set_find [of "s_clients s" "fst p" "snd p"]
    by (simp add: server_inv_def clients_ok_def findClient_def)
  then show ?thesis
    by (simp add: om_keys_def)
qed

lemma destroy_closes:
  assumes inv: "server_inv s"
  shows "s_openFds (destroy_server s) = []"
proof -
  have nonneg: "filter (\<lambda>fd. 0 \<le> fd) (om_keys (s_clients s)) = om_keys (s_clients s)" "0 \<le> s_listenerFd s"
    and d: "distinct (s_openFds s)" "set (s_openFds s) = insert (s_listenerFd s) (set (om_keys (s_clients s)))"
    and l: "s_listenerFd s \<notin> set (om_keys (s_clients s))"
    using inv by (auto simp: server_inv_def fds_ok_def poll_ok_def filter_id_conv)
  let ?open = "fold remove1 (om_keys (s_clients s)) (s_openFds s)"
  have "s_openFds (destroy_server s) = remove1 (s_listenerFd s) ?open"
    using clients_fds [OF inv] nonneg
    by (simp add: destroy_server_def Let_def close_fd_def fold_delete_openFds del: map_map)
  moreover have "set (remove1 (s_listenerFd s) ?open) = {}"
  proof -
    have "distinct ?open"
      by (rule distinct_fold_remove1 [OF d(1)])
    then show ?thesis
      using d l by (auto simp: fold_remove1_set)
  qed
  ultimately show ?thesis
    by simp
qed

section \<open>Which texts are ports\<close>

text \<open>
  The stream accepts more than the comment above \<open>checkPort\<close> says: 65535 itself, white space
  around the number, and a sign. A minus sign is read modulo \<open>2 ^ 64\<close>, as \<open>strtoull\<close>
  does, so a negative number can be accepted. The divergence concerns the comment only; the port
  is always the value that was read, and the narrowing to 16 bits loses nothing
  (\<open>checkPort_Some\<close>).
\<close>

lemma negative_port: "checkPort ''-18446744073709551535'' = Some 81"
  by (simp add: checkPort_def extract_unsigned_def extract_char_def is_space_def is_digit_def
      digits_value_def char_le_of_char)

lemma boundary_port: "checkPort (decimal 65535) = Some 65535" "checkPort (decimal 65536) = None"
  by (simp_all add: checkPort_decimal)

end
