(* ===== verification/Irc_Session.thy ===== *)
theory Irc_Session
  imports Irc_Main
begin

text \<open>
  One session of the program, evaluated from the start of the server: a client connects, registers
  and creates a channel in a single read. It shows which bytes the model answers with, and gives a
  reachable state with a registered client and a channel for the properties of reachable states.
\<close>

section \<open>The states of the session\<close>

definition session_client :: "string \<Rightarrow> string \<Rightarrow> bool \<Rightarrow> bool \<Rightarrow> string \<Rightarrow> string \<Rightarrow> client" where
  "session_client nickname username passed registered input output =
     \<lparr>c_nickname = nickname, c_username = username, c_realname = (if username = [] then [] else ''r''),
      c_passwordAccepted = passed, c_hasUser = (username \<noteq> []), c_registered = registered, c_fd = 4,
      c_outputBuffer = output, c_inputBuffer = input, c_disconnectRequested = False, c_disconnectReason = []\<rparr>"

definition session_server :: "client \<Rightarrow> short_int \<Rightarrow> (string, descriptor) omap \<Rightarrow> (string, channel) omap \<Rightarrow> server" where
  "session_server c events index channels =
     \<lparr>s_listenerFd = 3, s_password = ''pw'',
      s_pollFds = [\<lparr>pf_fd = 3, pf_events = POLLIN, pf_revents = 0\<rparr>,
        \<lparr>pf_fd = 4, pf_events = events, pf_revents = POLLIN\<rparr>],
      s_clients = [(4, c)], s_nicknameIndex = index, s_channels = channels, s_openFds = [4, 3]\<rparr>"

lemma session_server_sel [simp]:
  "findClient (session_server c e ix chs) g = (if g = 4 then Some c else None)"
  "client_at (session_server c e ix chs) 4 = c"
  "s_password (session_server c e ix chs) = ''pw''" "s_nicknameIndex (session_server c e ix chs) = ix"
  "s_channels (session_server c e ix chs) = chs" "s_clients (session_server c e ix chs) = [(4, c)]"
  "on_client 4 f (session_server c e ix chs) = session_server (f c) e ix chs"
  "session_server c e ix chs\<lparr>s_nicknameIndex := ix'\<rparr> = session_server c e ix' chs"
  "session_server c e ix chs\<lparr>s_channels := chs'\<rparr> = session_server c e ix chs'"
  by (simp_all add: session_server_def findClient_def client_at_def on_client_def om_update_def)

lemma session_queue [simp]:
  "\<lbrakk>\<not> c_disconnectRequested c; c_fd c = 4; length (c_outputBuffer c) + length line + 2 \<le> MAX_PENDING_OUTPUT\<rbrakk> \<Longrightarrow>
   queue_line (session_server c e ix chs) 4 line =
     session_server (appendOutput (line @ crlf) c) (e OR POLLOUT) ix chs"
  by (simp add: queueLine_def queueRaw_def Let_def accessor_defs) (simp add: session_server_def)

lemma session_parse:
  "parse_command ''PASS pw'' = \<lparr>cmd_valid = True, cmd_name = ''PASS'', cmd_parameters = [''pw'']\<rparr>"
  "parse_command ''nick Al'' = \<lparr>cmd_valid = True, cmd_name = ''NICK'', cmd_parameters = [''Al'']\<rparr>"
  "parse_command ''USER u 0 * :r'' = \<lparr>cmd_valid = True, cmd_name = ''USER'', cmd_parameters = [''u'', ''0'', ''*'', ''r'']\<rparr>"
  "parse_command ''JOIN #R'' = \<lparr>cmd_valid = True, cmd_name = ''JOIN'', cmd_parameters = [''#R'']\<rparr>"
  by code_simp+

lemma session_fold [simp]: "ircCaseFold ''Al'' = ''al''" "ircCaseFold ''#R'' = ''#r''"
  by code_simp+

section \<open>The four lines\<close>

lemmas session_eval = handleCompleteLine_def Let_def session_parse dispatchCommand_def accessor_defs
  tryCompleteRegistration_def session_client_def

lemma line_pass:
  "handleCompleteLine (session_server (session_client [] [] False False i []) e [] []) 4 ''PASS pw'' =
     session_server (session_client [] [] True False i []) e [] []"
  by (simp add: session_eval handlePass_def)

lemma line_nick:
  "handleCompleteLine (session_server (session_client [] [] True False i []) e [] []) 4 ''nick Al'' =
     session_server (session_client ''Al'' [] True False i []) e [(''al'', 4)] []"
  by (simp add: session_eval handleNick_def isValidNickname_def change_nickname_def)

definition greeting_bytes :: string where
  "greeting_bytes =
     '':ircserv 001 Al :Welcome to this really awesome IRC server !Al!u@localhost'' @ crlf
     @ '':ircserv 376 Al :End of MOTD command'' @ crlf"

lemma line_user:
  "handleCompleteLine (session_server (session_client ''Al'' [] True False i []) e [(''al'', 4)] []) 4 ''USER u 0 * :r'' =
     session_server (session_client ''Al'' ''u'' True True i greeting_bytes) (e OR POLLOUT) [(''al'', 4)] []"
  by (simp add: session_eval handleUser_def SendWelcome_def sendNumeric_def MAX_PENDING_OUTPUT_def getPrefix_def
      greeting_bytes_def)

definition session_channel :: channel where
  "session_channel = (new_channel ''#R'')\<lparr>ch_members := [(4, new_member None True)]\<rparr>"

definition join_bytes :: string where
  "join_bytes =
     '':Al!u@localhost JOIN :#R'' @ crlf
     @ '':ircserv 331 Al #R :No topic is set'' @ crlf
     @ '':ircserv 353 Al = #R :@Al'' @ crlf
     @ '':ircserv 366 Al #R :End of /NAMES list'' @ crlf"

lemma session_join_channel:
  "on_channel ''#r'' (\<lambda>ch. snd (addMember 4 True ch)) (session_server c e ix [(''#r'', new_channel ''#R'')]) =
     session_server c e ix [(''#r'', session_channel)]"
  by (simp add: on_channel_def om_update_def addMember_def hasMember_def new_channel_def om_insert_def
      session_channel_def)

lemma session_channel_sel [simp]:
  "ch_name session_channel = ''#R''" "ch_topic session_channel = []"
  "ch_members session_channel = [(4, new_member None True)]"
  by (simp_all add: session_channel_def new_channel_def)

lemma pollout_idem [simp]: "((e :: short_int) OR POLLOUT) OR POLLOUT = e OR POLLOUT"
  by (simp add: or.assoc)

lemma session_numeric:
  assumes "length out + length n + length a + 100 \<le> MAX_PENDING_OUTPUT" "a \<noteq> []"
  shows "send_numeric (session_server (session_client ''Al'' ''u'' True True i out) e ix chs) 4 n a =
    session_server (session_client ''Al'' ''u'' True True i
      (out @ '':ircserv '' @ n @ '' Al '' @ a @ crlf)) (e OR POLLOUT) ix chs"
  using assms by (simp add: sendNumeric_def Let_def session_client_def accessor_defs)

lemma session_line:
  assumes "length out + length l + 2 \<le> MAX_PENDING_OUTPUT"
  shows "queue_line (session_server (session_client ''Al'' ''u'' True True i out) e ix chs) 4 l =
    session_server (session_client ''Al'' ''u'' True True i (out @ l @ crlf)) (e OR POLLOUT) ix chs"
  using assms by (simp add: session_client_def accessor_defs)

lemma greeting_length: "length greeting_bytes = 114"
  by (simp add: greeting_bytes_def)

lemma session_join_replies:
  "join_replies (session_server (session_client ''Al'' ''u'' True True i greeting_bytes) (e OR POLLOUT)
       [(''al'', 4)] [(''#r'', session_channel)]) 4 ''#r'' =
     session_server (session_client ''Al'' ''u'' True True i (greeting_bytes @ join_bytes)) (e OR POLLOUT)
       [(''al'', 4)] [(''#r'', session_channel)]"
proof -
  have c: "getPrefix (session_client ''Al'' ''u'' True True i out) = ''Al!u@localhost''"
    "getNickname (session_client ''Al'' ''u'' True True i out) = ''Al''" for out
    by (simp_all add: session_client_def getPrefix_def getNickname_def)
  show ?thesis
    by (simp add: join_replies_def channel_at_def broadcastToChannel_def sendChannelNames_def hasTopic_def
        getName_def getMembers_def new_member_def isOperator_def c session_line session_numeric
        greeting_length MAX_PENDING_OUTPUT_def join_bytes_def)
qed

lemma line_join:
  "handleCompleteLine (session_server (session_client ''Al'' ''u'' True True i greeting_bytes) (e OR POLLOUT)
       [(''al'', 4)] []) 4 ''JOIN #R'' =
     session_server (session_client ''Al'' ''u'' True True i (greeting_bytes @ join_bytes)) (e OR POLLOUT)
       [(''al'', 4)] [(''#r'', session_channel)]"
proof -
  have "c_registered (session_client ''Al'' ''u'' True True i greeting_bytes)"
    "c_fd (session_client ''Al'' ''u'' True True i greeting_bytes) = 4"
    by (simp_all add: session_client_def)
  then show ?thesis
    by (simp add: handleCompleteLine_def session_parse dispatchCommand_def handleJoin_def findChannel_def
        isValid_def getCommandName_def getParameterCount_def getParameters_def isRegistered_def getFd_def
        session_join_channel session_join_replies)
qed

section \<open>The read that brings them\<close>

definition session_input :: string where
  "session_input = ''PASS pw'' @ crlf @ ''nick Al'' @ [newline_char] @ ''USER u 0 * :r'' @ crlf @ ''JOIN #R'' @ crlf"

lemma session_pop:
  assumes "newline_char \<notin> set raw"
  shows "process_lines (session_server (session_client n u a r (raw @ newline_char # rest) out) e ix chs) 4 =
    (let s = handleCompleteLine (session_server (session_client n u a r rest out) e ix chs) 4 (strip_return raw)
     in if isDisconnectRequested (client_at s 4) then s else process_lines s 4)"
proof -
  let ?c = "session_client n u a r (raw @ newline_char # rest) out"
  have pop: "popLine ?c = Some (strip_return raw, session_client n u a r rest out)"
    using popLine_first [OF assms, of ?c rest] by (simp add: session_client_def)
  show ?thesis
    by (subst process_lines.simps) (simp add: pop after_pop_def Let_def)
qed

lemma session_stop:
  "process_lines (session_server (session_client n u a r [] out) e ix chs) 4 =
     session_server (session_client n u a r [] out) e ix chs"
  by (subst process_lines.simps) (simp add: popLine_def session_client_def)

lemma session_stays [simp]: "isDisconnectRequested (session_client n u a r i out) = False"
  by (simp add: session_client_def isDisconnectRequested_def)

lemma session_read:
  "process_lines (session_server (session_client [] [] False False session_input []) e [] []) 4 =
     session_server (session_client ''Al'' ''u'' True True [] (greeting_bytes @ join_bytes)) (e OR POLLOUT)
       [(''al'', 4)] [(''#r'', session_channel)]"
proof -
  have input: "session_input = (''PASS pw'' @ [return_char]) @ newline_char # (''nick Al'' @ newline_char #
      ((''USER u 0 * :r'' @ [return_char]) @ newline_char # ((''JOIN #R'' @ [return_char]) @ newline_char # [])))"
    by (simp add: session_input_def)
  have strip: "strip_return ''nick Al'' = ''nick Al''"
    by (simp add: strip_return_def)
  show ?thesis
    unfolding input
    by (subst session_pop, simp, simp only: strip_return_snoc line_pass Let_def session_server_sel session_stays if_False,
        subst session_pop, simp, simp only: strip line_nick Let_def session_server_sel session_stays if_False,
        subst session_pop, simp, simp only: strip_return_snoc line_user Let_def session_server_sel session_stays if_False,
        subst session_pop, simp, simp only: strip_return_snoc line_join Let_def session_server_sel session_stays if_False
          session_stop)
qed

section \<open>The run\<close>

definition session_kernel :: "descriptor \<Rightarrow> int \<Rightarrow> kernel" where
  "session_kernel readable accept_ret =
     \<lparr>k_poll = 1, k_revents = (\<lambda>fd. if fd = readable then POLLIN else 0), k_accept = accept_ret,
      k_nonblock = True, k_recv = (\<lambda>fd. Recv_bytes session_input), k_send = (\<lambda>fd bytes. 0)\<rparr>"

text \<open>One round in which descriptor 4 is accepted, and one in which it can be read.\<close>

definition session_events :: "event list" where
  "session_events = map (\<lambda>(fd, r). Answer (session_kernel fd r))
     [(3, -1), (3, -1), (3, 4), (3, -1), (3, -1), (3, -1), (4, -1), (4, -1), (4, -1), (4, -1)]"

definition process_at :: "server \<Rightarrow> program_point \<Rightarrow> process" where
  "process_at s point = \<lparr>p_server = s, p_stopRequested = False, p_at = point\<rparr>"

lemma process_at_sel [simp]:
  "p_server (process_at s point) = s" "p_stopRequested (process_at s point) = False" "p_at (process_at s point) = point"
  by (simp_all add: process_at_def)

lemma process_at_update [simp]:
  "process_at s point\<lparr>p_at := point'\<rparr> = process_at s point'"
  "process_at s point\<lparr>p_server := s', p_at := point'\<rparr> = process_at s' point'"
  by (simp_all add: process_at_def)

text \<open>The server between the two rounds, with what \<open>poll\<close> last reported.\<close>

definition quiet_server :: "short_int \<Rightarrow> short_int \<Rightarrow> server" where
  "quiet_server e3 e4 =
     \<lparr>s_listenerFd = 3, s_password = ''pw'',
      s_pollFds = [\<lparr>pf_fd = 3, pf_events = POLLIN, pf_revents = e3\<rparr>, \<lparr>pf_fd = 4, pf_events = POLLIN, pf_revents = e4\<rparr>],
      s_clients = [(4, new_client 4)], s_nicknameIndex = [], s_channels = [], s_openFds = [4, 3]\<rparr>"

lemma first_round:
  "run (map (\<lambda>r. Answer (session_kernel 3 r)) [-1, -1, 4, -1, -1]) (process_at (listening_server 3 ''pw'') At_while) =
     process_at (quiet_server POLLIN 0) At_sweep"
  "events_ok (map (\<lambda>r. Answer (session_kernel 3 r)) [-1, -1, 4, -1, -1]) (process_at (listening_server 3 ''pw'') At_while)"
  by (simp_all add: run_def run_step_def Let_def session_kernel_def poll_fills_def scan_entry_def acceptClient_def
      addPollFd_def findClient_def om_insert_def POLLIN_def listening_server_def quiet_server_def accept_ok_def)

lemma first_sweep: "run_step k (process_at (quiet_server POLLIN 0) At_sweep) = process_at (quiet_server POLLIN 0) At_while"
proof -
  have "findClient (quiet_server POLLIN 0) 4 = Some (new_client 4)" "length (s_pollFds (quiet_server POLLIN 0)) = Suc (Suc 0)"
    "pf_fd (s_pollFds (quiet_server POLLIN 0) ! 0) = 3" "pf_fd (s_pollFds (quiet_server POLLIN 0) ! Suc 0) = 4"
    "s_listenerFd (quiet_server POLLIN 0) = 3" "isDisconnectRequested (new_client 4) = False"
    by (simp_all add: quiet_server_def findClient_def new_client_def isDisconnectRequested_def)
  then have "removeDisconnectedClients (quiet_server POLLIN 0) = quiet_server POLLIN 0"
    by (simp add: removeDisconnectedClients_def sweep_from.simps [of 0] sweep_from.simps [of "Suc 0"] sweep_from.simps [of "Suc (Suc 0)"])
  then show ?thesis
    by (simp add: run_step_def)
qed

lemma second_poll:
  "run (map (\<lambda>r. Answer (session_kernel 4 r)) [-1, -1, -1]) (process_at (quiet_server POLLIN 0) At_while) =
     process_at (session_server (session_client [] [] False False [] []) POLLIN [] []) (At_scan 1)"
  by (simp add: run_def run_step_def Let_def session_kernel_def poll_fills_def scan_entry_def quiet_server_def
      session_server_def session_client_def new_client_def)

lemma pollin_bits:
  "POLLIN AND POLLIN \<noteq> 0" "POLLIN AND (POLLERR OR POLLNVAL) = 0" "POLLIN AND POLLOUT = 0" "POLLIN AND POLLHUP = 0"
  "POLLIN \<noteq> 0"
  by (simp_all add: poll_bits)

lemma second_read:
  "run_step (session_kernel 4 (-1)) (process_at (session_server (session_client [] [] False False [] []) POLLIN [] []) (At_scan 1)) =
     process_at (session_server (session_client ''Al'' ''u'' True True [] (greeting_bytes @ join_bytes)) (POLLIN OR POLLOUT)
       [(''al'', 4)] [(''#r'', session_channel)]) (At_scan 2)"
proof -
  let ?s = "session_server (session_client [] [] False False [] []) POLLIN [] []"
  have s: "length (s_pollFds ?s) = 2" "pf_fd (s_pollFds ?s ! 1) = 4" "pf_revents (s_pollFds ?s ! 1) = POLLIN"
    "s_listenerFd ?s = 3"
    by (simp_all add: session_server_def)
  have "appendInput session_input (session_client [] [] False False [] []) = session_client [] [] False False session_input []"
    by (simp add: session_client_def appendInput_def)
  moreover have "getInputSize (session_client n u a r [] out) = 0" for n u a r out
    by (simp add: session_client_def getInputSize_def)
  moreover have "session_input \<noteq> []"
    by (simp add: session_input_def)
  ultimately have "receiveFromClient (k_recv (session_kernel 4 (-1))) ?s 1 = (True,
      session_server (session_client ''Al'' ''u'' True True [] (greeting_bytes @ join_bytes)) (POLLIN OR POLLOUT)
       [(''al'', 4)] [(''#r'', session_channel)])"
    using s by (simp add: receiveFromClient_def Let_def session_read session_kernel_def)
  then show ?thesis
    using s pollin_bits
    by (simp add: run_step_def scan_entry_def scan_input_def scan_output_def scan_hangup_def)
qed

definition session_end :: server where
  "session_end = session_server (session_client ''Al'' ''u'' True True [] (greeting_bytes @ join_bytes)) (POLLIN OR POLLOUT)
     [(''al'', 4)] [(''#r'', session_channel)]"

lemma run_append: "run (es @ fs) p = run fs (run es p)"
  by (simp add: run_def)

lemma session_split:
  "session_events = map (\<lambda>r. Answer (session_kernel 3 r)) [-1, -1, 4, -1, -1]
     @ [Answer (session_kernel 3 (-1))] @ map (\<lambda>r. Answer (session_kernel 4 r)) [-1, -1, -1]
     @ [Answer (session_kernel 4 (-1))]"
  by (simp add: session_events_def)

lemma start_at: "start_process s = process_at s At_while"
  by (simp add: start_process_def process_at_def)

lemma run_single: "run [Answer k] p = run_step k p"
  by (simp add: run_def)

lemma session_run:
  "run session_events (start_process (listening_server 3 ''pw'')) = process_at session_end (At_scan 2)"
  unfolding session_split start_at run_append first_round run_single first_sweep second_poll second_read session_end_def
  by (rule refl)

lemma events_ok_append: "events_ok (es @ fs) p \<longleftrightarrow> events_ok es p \<and> events_ok fs (run es p)"
  by (induction es arbitrary: p) (simp_all add: run_def)

lemma session_events_ok: "events_ok session_events (start_process (listening_server 3 ''pw''))"
proof -
  have "events_ok (map (\<lambda>r. Answer (session_kernel 4 r)) [-1, -1, -1]) p"
    "events_ok [Answer (session_kernel n (-1))] p" for p n
    by (simp_all add: session_kernel_def accept_ok_def)
  then show ?thesis
    unfolding session_split start_at events_ok_append by (intro conjI first_round(2))
qed

end
