(* ===== verification/Irc_Wire.thy ===== *)
theory Irc_Wire
  imports Irc_Loop
begin

text \<open>
  What is stored and what is sent: in every reachable state nicknames and channel names are valid,
  no stored text contains a line end, every output buffer is made of whole lines, and a client's
  pending input is one unfinished line within the limit. The locale \<open>tidy_handler\<close> is what
  this asks of a command handler and \<open>tidy_applier\<close> of a mode change; the section on the
  loop interprets \<open>loop_invariant\<close>.
\<close>

section \<open>Texts without a line end\<close>

definition clean :: "string \<Rightarrow> bool" where
  "clean x \<longleftrightarrow> newline_char \<notin> set x"

lemma clean_simps [simp]:
  "clean []" "clean (c # x) \<longleftrightarrow> c \<noteq> newline_char \<and> clean x" "clean (x @ y) \<longleftrightarrow> clean x \<and> clean y"
  by (auto simp: clean_def)

lemma clean_subset: "\<lbrakk>set x \<subseteq> set y; clean y\<rbrakk> \<Longrightarrow> clean x"
  by (auto simp: clean_def)

lemma valid_nickname_clean: "isValidNickname n \<Longrightarrow> clean n"
  by (auto simp: isValidNickname_def clean_def split: if_splits)

text \<open>What a list of messages is on the wire.\<close>

definition wire_lines :: "string list \<Rightarrow> string" where
  "wire_lines ls = concat (map (\<lambda>l. l @ crlf) ls)"

lemma wire_lines_append: "wire_lines (ls @ ms) = wire_lines ls @ wire_lines ms"
  by (simp add: wire_lines_def)

text \<open>A buffer of whole lines, of which a first part may have been sent already.\<close>

definition line_buffer :: "string \<Rightarrow> bool" where
  "line_buffer out \<longleftrightarrow> (\<exists>sent ls. sent @ out = wire_lines ls \<and> list_all clean ls)"

lemma line_buffer_Nil [simp]: "line_buffer []"
  unfolding line_buffer_def by (rule exI [of _ "[]"], rule exI [of _ "[]"]) (simp add: wire_lines_def)

lemma line_buffer_append: "\<lbrakk>line_buffer out; clean l\<rbrakk> \<Longrightarrow> line_buffer (out @ l @ crlf)"
proof -
  assume "line_buffer out" "clean l"
  then obtain sent ls where "sent @ out = wire_lines ls" "list_all clean ls"
    by (auto simp: line_buffer_def)
  with \<open>clean l\<close> have "sent @ (out @ l @ crlf) = wire_lines (ls @ [l])" "list_all clean (ls @ [l])"
    by (simp_all add: wire_lines_append flip: append_assoc) (simp add: wire_lines_def)
  then show ?thesis
    unfolding line_buffer_def by blast
qed

lemma line_buffer_drop: "line_buffer out \<Longrightarrow> line_buffer (drop n out)"
proof -
  assume "line_buffer out"
  then obtain sent ls where "sent @ out = wire_lines ls" "list_all clean ls"
    by (auto simp: line_buffer_def)
  then have "(sent @ take n out) @ drop n out = wire_lines ls"
    by simp
  with \<open>list_all clean ls\<close> show ?thesis
    unfolding line_buffer_def by blast
qed

section \<open>Tidy clients and channels\<close>

definition tidy_client :: "client \<Rightarrow> bool" where
  "tidy_client c \<longleftrightarrow>
     (c_nickname c = [] \<or> isValidNickname (c_nickname c))
     \<and> clean (c_username c) \<and> clean (c_realname c) \<and> clean (c_disconnectReason c)
     \<and> line_buffer (c_outputBuffer c)"

definition tidy_channel :: "channel \<Rightarrow> bool" where
  "tidy_channel ch \<longleftrightarrow>
     isChannelTarget (ch_name ch) \<and> clean (ch_name ch) \<and> clean (ch_topic ch) \<and> clean (ch_key ch)"

definition tidy :: "server \<Rightarrow> bool" where
  "tidy s \<longleftrightarrow>
     (\<forall>fd c. findClient s fd = Some c \<longrightarrow> tidy_client c)
     \<and> (\<forall>key ch. om_find (s_channels s) key = Some ch \<longrightarrow> tidy_channel ch)"

lemma tidy_clientD:
  assumes "tidy s" "findClient s fd = Some c"
  shows "tidy_client c" "clean (c_nickname c)" "clean (getPrefix c)" "clean (c_disconnectReason c)"
proof -
  show c: "tidy_client c"
    using assms by (simp add: tidy_def)
  then show nick: "clean (c_nickname c)"
    using valid_nickname_clean by (auto simp: tidy_client_def)
  from c nick show "clean (getPrefix c)" "clean (c_disconnectReason c)"
    by (simp_all add: tidy_client_def getPrefix_def)
qed

lemma tidy_at:
  assumes "tidy s" "findClient s fd \<noteq> None"
  shows "clean (c_nickname (client_at s fd))" "clean (getPrefix (client_at s fd))"
    "clean (getNickname (client_at s fd))" "clean (getDisconnectReason (client_at s fd))"
  using assms tidy_clientD [OF assms(1), of fd] by (auto simp: client_at_def accessor_defs)

lemma tidy_channelD: "\<lbrakk>tidy s; om_find (s_channels s) key = Some ch\<rbrakk> \<Longrightarrow> tidy_channel ch"
  by (simp add: tidy_def)

lemma tidy_found: "\<lbrakk>tidy s; findChannel s name = Some ch\<rbrakk> \<Longrightarrow> tidy_channel ch"
  by (simp add: tidy_def findChannel_def)

lemma tidy_channel_sel:
  "tidy_channel ch \<Longrightarrow> clean (getName ch)" "tidy_channel ch \<Longrightarrow> clean (getTopic ch)"
  by (simp_all add: tidy_channel_def accessor_defs)

lemma tidy_deliver: "\<lbrakk>tidy_client c; clean l\<rbrakk> \<Longrightarrow> tidy_client (deliver l c)"
  by (auto simp: tidy_client_def deliver_def accessor_defs line_buffer_append)

section \<open>Output\<close>

text \<open>A client that is being disconnected stays so.\<close>

definition leaving :: "server \<Rightarrow> descriptor \<Rightarrow> bool" where
  "leaving s fd \<longleftrightarrow> (\<exists>c. findClient s fd = Some c \<and> c_disconnectRequested c)"

text \<open>One step that queues clean lines only.\<close>

lemma find_queueLine:
  "findClient (queue_line s fd l) g = (if g = fd then map_option (deliver l) (findClient s fd) else findClient s g)"
  by (cases "findClient s fd") (simp_all add: findClient_queueLine findClient_queueLine_other)

lemma tidy_queueLine: "\<lbrakk>tidy s; clean l\<rbrakk> \<Longrightarrow> tidy (queue_line s fd l)"
  by (auto simp: tidy_def find_queueLine tidy_deliver)

lemma leaving_queueLine: "leaving s g \<Longrightarrow> leaving (queue_line s fd l) g"
  by (auto simp: leaving_def find_queueLine deliver_flag)

lemma tidy_sendNumeric:
  "\<lbrakk>tidy s; findClient s fd \<noteq> None; clean numeric; clean arguments\<rbrakk> \<Longrightarrow> tidy (send_numeric s fd numeric arguments)"
  using tidy_at(3) [of s fd] by (simp add: sendNumeric_def Let_def tidy_queueLine)

lemma leaving_sendNumeric: "leaving s g \<Longrightarrow> leaving (send_numeric s fd numeric arguments) g"
  by (simp add: sendNumeric_def Let_def leaving_queueLine)

lemma tidy_broadcast_loop: "\<lbrakk>tidy s; clean m\<rbrakk> \<Longrightarrow> tidy (broadcast_loop ms m ex s)"
  by (induction ms m ex s rule: broadcast_loop.induct) (auto simp: tidy_queueLine split: option.split)

lemma leaving_broadcast_loop: "leaving s g \<Longrightarrow> leaving (broadcast_loop ms m ex s) g"
  by (induction ms m ex s rule: broadcast_loop.induct) (auto simp: leaving_queueLine split: option.split)

lemma tidy_queue_to_each: "\<lbrakk>tidy s; clean m\<rbrakk> \<Longrightarrow> tidy (queue_to_each fds m s)"
  by (induction fds m s rule: queue_to_each.induct) (auto simp: tidy_queueLine split: option.split)

lemma leaving_queue_to_each: "leaving s g \<Longrightarrow> leaving (queue_to_each fds m s) g"
  by (induction fds m s rule: queue_to_each.induct) (auto simp: leaving_queueLine split: option.split)

lemma clean_names_loop: "\<lbrakk>tidy s; clean names\<rbrakk> \<Longrightarrow> clean (names_loop s ms names)"
proof (induction s ms names rule: names_loop.induct)
  case (2 s fd m members namesList)
  then show ?case
    using tidy_clientD(2) [OF 2(3), of fd] by (auto simp: getNickname_def split: option.split)
qed simp

lemma tidy_output:
  "\<lbrakk>tidy s; clean m\<rbrakk> \<Longrightarrow> tidy (broadcastToChannel s ch m ex)"
  "\<lbrakk>tidy s; findClient s fd \<noteq> None; tidy_channel ch\<rbrakk> \<Longrightarrow> tidy (sendChannelNames s fd ch)"
  "\<lbrakk>tidy s; findClient s fd \<noteq> None\<rbrakk> \<Longrightarrow> tidy (SendWelcome s fd)"
  by (simp_all add: broadcastToChannel_def tidy_broadcast_loop sendChannelNames_def SendWelcome_def Let_def
      tidy_sendNumeric tidy_channel_sel clean_names_loop tidy_at)

lemma leaving_output:
  "leaving s g \<Longrightarrow> leaving (broadcastToChannel s ch m ex) g"
  "leaving s g \<Longrightarrow> leaving (sendChannelNames s fd ch) g"
  "leaving s g \<Longrightarrow> leaving (SendWelcome s fd) g"
  by (simp_all add: broadcastToChannel_def leaving_broadcast_loop sendChannelNames_def SendWelcome_def Let_def
      leaving_sendNumeric)

text \<open>Changes of the tables.\<close>

lemma tidy_on_client: "\<lbrakk>tidy s; \<And>c. tidy_client c \<Longrightarrow> tidy_client (f c)\<rbrakk> \<Longrightarrow> tidy (on_client fd f s)"
  by (auto simp: tidy_def)

lemma leaving_on_client:
  "\<lbrakk>leaving s g; \<And>c. c_disconnectRequested c \<Longrightarrow> c_disconnectRequested (f c)\<rbrakk> \<Longrightarrow> leaving (on_client fd f s) g"
  by (auto simp: leaving_def)

lemma tidy_on_channel: "\<lbrakk>tidy s; \<And>ch. tidy_channel ch \<Longrightarrow> tidy_channel (f ch)\<rbrakk> \<Longrightarrow> tidy (on_channel key f s)"
  by (auto simp: tidy_def)

lemma leaving_tables [simp]:
  "leaving (s\<lparr>s_channels := cs\<rparr>) g = leaving s g" "leaving (s\<lparr>s_nicknameIndex := ix\<rparr>) g = leaving s g"
  "leaving (on_channel k f s) g = leaving s g"
  by (simp_all add: leaving_def)

lemma tidy_index [simp]: "tidy (s\<lparr>s_nicknameIndex := ix\<rparr>) = tidy s"
  by (simp add: tidy_def)

lemmas tidy_simps =
  tidy_queueLine tidy_sendNumeric tidy_queue_to_each tidy_output tidy_at tidy_channel_sel

lemmas leaving_simps =
  leaving_queueLine leaving_sendNumeric leaving_queue_to_each leaving_output

section \<open>Commands\<close>

definition clean_command :: "command \<Rightarrow> bool" where
  "clean_command cmd \<longleftrightarrow> clean (getCommandName cmd) \<and> list_all clean (getParameters cmd)"

lemma clean_parameter [simp]:
  "\<lbrakk>clean_command cmd; i < length (getParameters cmd)\<rbrakk> \<Longrightarrow> clean (getParameters cmd ! i)"
  "\<lbrakk>clean_command cmd; i < getParameterCount cmd\<rbrakk> \<Longrightarrow> clean (getParameters cmd ! i)"
  by (simp_all add: clean_command_def list_all_length getParameterCount_def getParameters_def)

lemma uppercase_newline: "uppercaseAscii c = newline_char \<Longrightarrow> c = newline_char"
proof (cases "CHR ''a'' \<le> c \<and> c \<le> CHR ''z''")
  case True
  then have "97 \<le> (of_char c :: int)" "(of_char c :: int) \<le> 122"
    by (simp_all add: char_le_of_char)
  then have "(of_char (uppercaseAscii c) :: int) = of_char c - 32"
    using True by (simp add: uppercaseAscii_def)
  moreover assume "uppercaseAscii c = newline_char"
  ultimately show ?thesis
    using \<open>97 \<le> of_char c\<close> by simp
qed (simp add: uppercaseAscii_def)

lemma clean_parse:
  assumes "clean line"
  shows "clean_command (parse_command line)"
proof (cases "dropWhile ((=) space_char) line")
  case (Cons c r)
  have r: "set (c # r) \<subseteq> set line"
    using dropWhile_space_Cons [OF Cons] by simp
  obtain valid ps where ps: "reference_parameters MAX_COMMAND_PARAMETERS (dropWhile ((\<noteq>) space_char) r) = (valid, ps)"
    by fastforce
  have "set p \<subseteq> set line" if "p \<in> set ps" for p
    using reference_parameters_shape [OF ps] that set_dropWhile [of "(\<noteq>) space_char" r] r by fastforce
  then have "list_all clean ps"
    unfolding list_all_iff using assms clean_subset by blast
  moreover have "clean (normalizeName (c # takeWhile ((\<noteq>) space_char) r))"
    using assms r set_takeWhile [of "(\<noteq>) space_char" r] uppercase_newline
    by (fastforce simp: clean_def normalizeName_def)
  ultimately show ?thesis
    using Cons ps by (simp add: parse_command_reference clean_command_def accessor_defs)
next
  case Nil
  then show ?thesis
    by (simp add: parse_command_reference clean_command_def accessor_defs del: dropWhile_eq_Nil_conv)
qed

locale tidy_handler =
  fixes h :: "server \<Rightarrow> descriptor \<Rightarrow> command \<Rightarrow> server"
  assumes tidy: "\<lbrakk>tidy s; findClient s fd \<noteq> None; clean_command cmd\<rbrakk> \<Longrightarrow> tidy (h s fd cmd)"
    and leaving: "leaving s g \<Longrightarrow> leaving (h s fd cmd) g"

interpretation ping: tidy_handler handlePing
  by unfold_locales (auto simp: handlePing_def SERVER_NAME_def tidy_simps leaving_simps)

interpretation cap: tidy_handler handleCap
  by unfold_locales (auto simp: handleCap_def Let_def tidy_simps leaving_simps)

interpretation unknown: tidy_handler handleUnknownCommand
  by unfold_locales (auto simp: handleUnknownCommand_def clean_command_def tidy_simps leaving_simps)

interpretation quit: tidy_handler handleQuit
proof unfold_locales
  fix s fd cmd
  assume "tidy s" "clean_command cmd"
  then show "tidy (handleQuit s fd cmd)"
    by (auto simp: handleQuit_def Let_def requestDisconnect_def tidy_client_def intro!: tidy_on_client)
qed (auto simp: handleQuit_def Let_def requestDisconnect_def intro!: leaving_on_client)

section \<open>Registration\<close>

lemma tidy_tryComplete: "\<lbrakk>tidy s; findClient s fd \<noteq> None\<rbrakk> \<Longrightarrow> tidy (tryCompleteRegistration s fd)"
  by (auto simp: tryCompleteRegistration_def setRegistered_def tidy_client_def intro!: tidy_output(3) tidy_on_client)

lemma leaving_tryComplete: "leaving s g \<Longrightarrow> leaving (tryCompleteRegistration s fd) g"
  by (auto simp: tryCompleteRegistration_def setRegistered_def intro!: leaving_output leaving_on_client)

interpretation pass: tidy_handler handlePass
proof unfold_locales
  fix s fd cmd
  assume "tidy s" "findClient s fd \<noteq> None"
  moreover from this have "tidy (on_client fd setPasswordAccepted s)"
    by (auto simp: setPasswordAccepted_def tidy_client_def intro!: tidy_on_client)
  ultimately show "tidy (handlePass s fd cmd)"
    by (auto simp: handlePass_def tidy_simps intro!: tidy_tryComplete)
qed (auto simp: handlePass_def leaving_simps setPasswordAccepted_def intro!: leaving_tryComplete leaving_on_client)

interpretation user: tidy_handler handleUser
proof unfold_locales
  fix s fd cmd
  assume t: "tidy s" "findClient s fd \<noteq> None" "clean_command cmd"
  have "tidy (on_client fd (setUser (getParameters cmd ! 0) (getParameters cmd ! 3)) s)"
    if "4 \<le> getParameterCount cmd"
    using t(1) that clean_parameter(2) [OF t(3), of 0] clean_parameter(2) [OF t(3), of 3]
    by (auto simp: setUser_def tidy_client_def intro!: tidy_on_client)
  with t show "tidy (handleUser s fd cmd)"
    by (auto simp: handleUser_def Let_def tidy_simps intro!: tidy_tryComplete)
qed (auto simp: handleUser_def Let_def leaving_simps setUser_def intro!: leaving_tryComplete leaving_on_client)

lemma tidy_change_nickname:
  assumes t: "tidy s" "findClient s fd \<noteq> None" and n: "isValidNickname n"
  shows "tidy (change_nickname s fd n)"
proof -
  obtain c where c: "findClient s fd = Some c"
    using t(2) by blast
  have "tidy_channel (rename_invite m n ch) = tidy_channel ch" for m ch
    by (simp add: tidy_channel_def rename_invite_def addInvite_def removeInvite_def)
  then show ?thesis
    using t(1) n c
    by (auto simp: tidy_def findClient_change_nickname [OF c] setNickname_def tidy_client_def)
qed

lemma leaving_change_nickname: "leaving s g \<Longrightarrow> leaving (change_nickname s fd n) g"
  by (auto simp: change_nickname_def Let_def setNickname_def intro!: leaving_on_client)

lemma live_change_nickname [simp]: "findClient (change_nickname s fd n) g = None \<longleftrightarrow> findClient s g = None"
  by (simp add: change_nickname_def Let_def)

lemma live_Some_change_nickname [simp]:
  "(\<exists>c. findClient (change_nickname s fd n) g = Some c) \<longleftrightarrow> (\<exists>c. findClient s g = Some c)"
  using live_change_nickname [of s fd n g] by (simp only: not_None_eq [symmetric])

interpretation nick: tidy_handler handleNick
proof unfold_locales
  fix s fd cmd
  assume t: "tidy s" "findClient s fd \<noteq> None" "clean_command cmd"
  show "tidy (handleNick s fd cmd)"
  proof (cases "getParameterCount cmd < 1 \<or> \<not> isValidNickname (getParameters cmd ! 0)")
    case True
    with t clean_parameter(2) [OF t(3), of 0] show ?thesis
      by (auto simp: handleNick_def Let_def tidy_simps)
  next
    case False
    then have "clean (getParameters cmd ! 0)" "isValidNickname (getParameters cmd ! 0)"
      using valid_nickname_clean by auto
    moreover note tidy_change_nickname [OF t(1,2) this(2)]
    ultimately show ?thesis
      using t by (auto simp: handleNick_def Let_def tidy_simps intro!: tidy_tryComplete tidy_queue_to_each)
  qed
qed (auto simp: handleNick_def Let_def leaving_simps
    intro!: leaving_tryComplete leaving_queue_to_each leaving_change_nickname)

section \<open>Channel commands\<close>

lemma tidy_operations:
  "tidy_channel ch \<Longrightarrow> tidy_channel (snd (addMember fd b ch))" "tidy_channel ch \<Longrightarrow> tidy_channel (removeMember fd ch)"
  "tidy_channel ch \<Longrightarrow> tidy_channel (removeInvite n ch)" "tidy_channel ch \<Longrightarrow> tidy_channel (addInvite n ch)"
  "\<lbrakk>tidy_channel ch; clean t\<rbrakk> \<Longrightarrow> tidy_channel (setTopic t ch)"
  "\<lbrakk>clean name; isChannelTarget name\<rbrakk> \<Longrightarrow> tidy_channel (new_channel name)"
  by (auto simp: tidy_channel_def addMember_def removeMember_def removeInvite_def addInvite_def setTopic_def
      new_channel_def split: option.split)

lemma tidy_modes:
  "tidy_channel ch \<Longrightarrow> tidy_channel (setInviteOnly b ch)" "tidy_channel ch \<Longrightarrow> tidy_channel (setTopicRestricted b ch)"
  "\<lbrakk>tidy_channel ch; clean k\<rbrakk> \<Longrightarrow> tidy_channel (setKey k ch)" "tidy_channel ch \<Longrightarrow> tidy_channel (removeKey ch)"
  "tidy_channel ch \<Longrightarrow> tidy_channel (setUserLimit l ch)" "tidy_channel ch \<Longrightarrow> tidy_channel (removeUserLimit ch)"
  "tidy_channel ch \<Longrightarrow> tidy_channel (snd (setMemberOperator fd b ch))"
  by (auto simp: tidy_channel_def accessor_defs setMemberOperator_def split: option.split)

interpretation privmsg: tidy_handler handlePrivmsg
proof unfold_locales
  fix s fd cmd
  assume t: "tidy s" "findClient s fd \<noteq> None" "clean_command cmd"
  have "clean (getNickname c)" if "findClientByNickname s n = Some c" for n c
    using that tidy_clientD(2) [OF t(1)] by (auto simp: findClientByNickname_def getNickname_def split: option.splits)
  moreover have "2 \<le> length (getParameters cmd) \<Longrightarrow> clean (getParameters cmd ! 0) \<and> clean (getParameters cmd ! 1)"
    using clean_parameter(1) [OF t(3), of 0] clean_parameter(1) [OF t(3), of 1] by force
  ultimately show "tidy (handlePrivmsg s fd cmd)"
    using t by (auto simp: handlePrivmsg_def Let_def tidy_simps not_less split: option.split)
qed (auto simp: handlePrivmsg_def Let_def leaving_simps split: option.split)

lemma tidy_join_replies:
  assumes "tidy s" "findClient s fd \<noteq> None" "om_find (s_channels s) key \<noteq> None"
  shows "tidy (join_replies s fd key)"
proof -
  obtain ch where "om_find (s_channels s) key = Some ch" "tidy_channel ch"
    using assms(1,3) tidy_channelD by blast
  then show ?thesis
    using assms(1,2) by (auto simp: join_replies_def Let_def channel_at_def tidy_simps)
qed

lemma leaving_join_replies: "leaving s g \<Longrightarrow> leaving (join_replies s fd key) g"
  by (simp add: join_replies_def Let_def leaving_simps)

lemma tidy_put_channel:
  "\<lbrakk>tidy s; tidy_channel ch\<rbrakk> \<Longrightarrow> tidy (s\<lparr>s_channels := om_put key ch (s_channels s)\<rparr>)"
  by (auto simp: tidy_def)

interpretation join: tidy_handler handleJoin
proof unfold_locales
  fix s fd cmd
  assume t: "tidy s" "findClient s fd \<noteq> None" "clean_command cmd"
  let ?name = "getParameters cmd ! 0" and ?key = "ircCaseFold (getParameters cmd ! 0)"
  have name: "clean ?name" if "1 \<le> getParameterCount cmd"
    using that t(3) by simp
  show "tidy (handleJoin s fd cmd)"
  proof (cases "findChannel s ?name")
    case None
    have "tidy (join_replies (on_channel ?key (\<lambda>ch. snd (addMember fd' True ch))
        (s\<lparr>s_channels := om_put ?key (new_channel ?name) (s_channels s)\<rparr>)) fd ?key)"
      if "1 \<le> getParameterCount cmd" "isChannelTarget ?name" for fd'
      using t(1,2) name [OF that(1)] that(2)
      by (intro tidy_join_replies tidy_on_channel tidy_put_channel) (auto simp: tidy_operations)
    then show ?thesis
      using t None name by (auto simp: handleJoin_def Let_def tidy_simps isChannelTarget_def)
  next
    case (Some ch)
    have "tidy (join_replies (on_channel ?key (removeInvite n) (on_channel ?key (\<lambda>ch. snd (addMember fd' False ch)) s)) fd ?key)" for n fd'
      using t(1,2) Some
      by (intro tidy_join_replies tidy_on_channel) (auto simp: tidy_operations findChannel_def)
    then show ?thesis
      using t Some name tidy_found [OF t(1) Some] by (auto simp: handleJoin_def Let_def tidy_simps)
  qed
qed (auto simp: handleJoin_def Let_def leaving_simps intro!: leaving_join_replies split: option.split)

interpretation topic: tidy_handler handleTopic
proof unfold_locales
  fix s fd cmd
  assume t: "tidy s" "findClient s fd \<noteq> None" "clean_command cmd"
  let ?name = "getParameters cmd ! 0"
  have args: "1 \<le> getParameterCount cmd \<Longrightarrow> clean ?name" "2 \<le> getParameterCount cmd \<Longrightarrow> clean (getParameters cmd ! 1)"
    using t(3) by simp_all
  have "tidy (on_channel (ircCaseFold ?name) (setTopic topic) s)" if "clean topic" for topic
    using t(1) that by (intro tidy_on_channel) (simp_all add: tidy_operations)
  then show "tidy (handleTopic s fd cmd)"
    using t args tidy_found [OF t(1), of ?name]
    by (cases "getParameterCount cmd = 1")
      (auto simp: handleTopic_def Let_def tidy_simps split: option.split)
qed (auto simp: handleTopic_def Let_def leaving_simps split: option.split)

lemma tidy_removeMember: "tidy s \<Longrightarrow> tidy (removeMemberFromChannel s k fd)"
  by (auto simp: removeMemberFromChannel_def Let_def tidy_def tidy_operations split: option.split if_splits)

lemma leaving_removeMember: "leaving s g \<Longrightarrow> leaving (removeMemberFromChannel s k fd) g"
  by (auto simp: removeMemberFromChannel_def Let_def split: option.split)

interpretation kick: tidy_handler handleKick
proof unfold_locales
  fix s fd cmd
  assume t: "tidy s" "findClient s fd \<noteq> None" "clean_command cmd"
  have "2 \<le> getParameterCount cmd \<Longrightarrow> clean (getParameters cmd ! 0) \<and> clean (getParameters cmd ! 1)"
    "3 \<le> getParameterCount cmd \<Longrightarrow> clean (getParameters cmd ! 2)"
    using clean_parameter(2) [OF t(3)] by simp_all
  then show "tidy (handleKick s fd cmd)"
    using t by (auto simp: handleKick_def Let_def tidy_simps intro!: tidy_removeMember split: option.split)
qed (auto simp: handleKick_def Let_def leaving_simps intro!: leaving_removeMember split: option.split)

interpretation invite: tidy_handler handleInvite
proof unfold_locales
  fix s fd cmd
  assume t: "tidy s" "findClient s fd \<noteq> None" "clean_command cmd"
  have args: "2 \<le> getParameterCount cmd \<Longrightarrow> clean (getParameters cmd ! 0) \<and> clean (getParameters cmd ! 1)"
    using clean_parameter(2) [OF t(3)] by simp
  have "tidy (on_channel key (addInvite n) s)" for key n
    using t(1) by (intro tidy_on_channel) (simp_all add: tidy_operations)
  then show "tidy (handleInvite s fd cmd)"
    using t args by (auto simp: handleInvite_def Let_def tidy_simps split: option.split)
qed (auto simp: handleInvite_def Let_def leaving_simps split: option.split)

section \<open>MODE\<close>

definition clean_change :: "mode_change \<Rightarrow> bool" where
  "clean_change change \<longleftrightarrow> mc_mode change \<noteq> newline_char \<and> clean (mc_argument change)"

text \<open>
  A mode change is applied for an existing channel and a live client, and leaves both there.
\<close>

locale tidy_applier =
  fixes ap :: "server \<Rightarrow> descriptor \<Rightarrow> string \<Rightarrow> mode_change \<Rightarrow> server"
  assumes tidy: "\<lbrakk>tidy s; findClient s fd \<noteq> None; om_find (s_channels s) key \<noteq> None; clean_change change\<rbrakk> \<Longrightarrow>
      tidy (ap s fd key change)"
    and leaving: "leaving s g \<Longrightarrow> leaving (ap s fd key change) g"

lemma tidy_announce:
  assumes "tidy s" "findClient s fd \<noteq> None" "om_find (s_channels s) key \<noteq> None" "clean_change change"
  shows "tidy (broadcastModeChange s fd key change)"
proof -
  obtain ch where "om_find (s_channels s) key = Some ch" "tidy_channel ch"
    using assms(1,3) tidy_channelD by blast
  then show ?thesis
    using assms by (auto simp: broadcastModeChange_def Let_def channel_at_def clean_change_def tidy_simps)
qed

lemma leaving_announce: "leaving s g \<Longrightarrow> leaving (broadcastModeChange s fd key change) g"
  by (simp add: broadcastModeChange_def Let_def leaving_simps)

lemma tidy_channel_at: "\<lbrakk>tidy s; om_find (s_channels s) key \<noteq> None\<rbrakk> \<Longrightarrow> clean (getName (channel_at s key))"
  using tidy_channelD tidy_channel_sel(1) by (force simp: channel_at_def)

lemma tidy_mode_step:
  assumes "tidy s" "findClient s fd \<noteq> None" "om_find (s_channels s) key \<noteq> None" "clean_change change"
    and "\<And>ch. tidy_channel ch \<Longrightarrow> tidy_channel (f ch)"
  shows "tidy (broadcastModeChange (on_channel key f s) fd key change)"
  using assms by (intro tidy_announce tidy_on_channel) auto

interpretation inviteOnly: tidy_applier applyInviteOnlyMode
  by unfold_locales
    (auto simp: applyInviteOnlyMode_def tidy_modes intro!: tidy_mode_step leaving_announce)

interpretation topicRestricted: tidy_applier applyTopicRestrictedMode
  by unfold_locales
    (auto simp: applyTopicRestrictedMode_def tidy_modes intro!: tidy_mode_step leaving_announce)

interpretation keyMode: tidy_applier applyKeyMode
proof unfold_locales
  fix s fd key change
  assume t: "tidy s" "findClient s fd \<noteq> None" "om_find (s_channels s) key \<noteq> None" "clean_change change"
  moreover have "clean (mc_argument change)"
    using t(4) by (simp add: clean_change_def)
  ultimately show "tidy (applyKeyMode s fd key change)"
    by (auto simp: applyKeyMode_def Let_def tidy_simps tidy_channel_at tidy_modes intro!: tidy_mode_step)
qed (auto simp: applyKeyMode_def Let_def leaving_simps intro!: leaving_announce)

interpretation operatorMode: tidy_applier applyOperatorMode
proof unfold_locales
  fix s fd key change
  assume t: "tidy s" "findClient s fd \<noteq> None" "om_find (s_channels s) key \<noteq> None" "clean_change change"
  moreover have "clean (mc_argument change)"
    using t(4) by (simp add: clean_change_def)
  ultimately show "tidy (applyOperatorMode s fd key change)"
    by (auto simp: applyOperatorMode_def Let_def tidy_simps tidy_channel_at tidy_modes intro!: tidy_mode_step
        split: option.split)
qed (auto simp: applyOperatorMode_def Let_def leaving_simps intro!: leaving_announce split: option.split)

interpretation userLimit: tidy_applier applyUserLimitMode
proof unfold_locales
  fix s fd key change
  assume t: "tidy s" "findClient s fd \<noteq> None" "om_find (s_channels s) key \<noteq> None" "clean_change change"
  moreover have "clean (mc_argument change)"
    using t(4) by (simp add: clean_change_def)
  ultimately show "tidy (applyUserLimitMode s fd key change)"
    by (auto simp: applyUserLimitMode_def Let_def tidy_simps tidy_channel_at tidy_modes intro!: tidy_mode_step
        split: option.split)
qed (auto simp: applyUserLimitMode_def Let_def leaving_simps intro!: leaving_announce split: option.split)

interpretation modes: tidy_applier applyChannelModeChange
  by unfold_locales
    (auto simp: applyChannelModeChange_def inviteOnly.tidy topicRestricted.tidy keyMode.tidy operatorMode.tidy
      userLimit.tidy inviteOnly.leaving topicRestricted.leaving keyMode.leaving operatorMode.leaving
      userLimit.leaving tidy_simps leaving_simps clean_change_def)

lemma clean_mode_loop:
  "\<lbrakk>mode_loop parameters cs adding seen i changes = Some result; list_all clean parameters; clean cs;
    list_all clean_change changes\<rbrakk> \<Longrightarrow> list_all clean_change result"
proof (induction parameters cs adding seen i changes rule: mode_loop.induct)
  case (2 parameters character cs adding seen i changes)
  have "i < length parameters \<Longrightarrow> clean (parameters ! i)"
    using "2.prems"(2) by (simp add: list_all_length)
  with 2 show ?case
    by (auto simp: new_mode_change_def clean_change_def Let_def split: if_splits)
qed simp

lemma tidy_apply_changes:
  "\<lbrakk>tidy s; findClient s fd \<noteq> None; om_find (s_channels s) key \<noteq> None; list_all clean_change cs\<rbrakk> \<Longrightarrow>
   tidy (apply_changes s fd key cs)"
proof (induction s fd key cs rule: apply_changes.induct)
  case (2 s fd key change changes)
  have "findClient (applyChannelModeChange s fd key change) fd \<noteq> None"
    unfolding same_objects_live [OF modes.same_objects] by (rule 2(3))
  moreover have "om_find (s_channels (applyChannelModeChange s fd key change)) key \<noteq> None"
    using 2(4) modes.channel_stays by blast
  ultimately show ?case
    using 2 modes.tidy [of s fd key change] by simp
qed simp

lemma leaving_apply_changes: "leaving s g \<Longrightarrow> leaving (apply_changes s fd key cs) g"
  by (induction s fd key cs rule: apply_changes.induct) (simp_all add: modes.leaving)

interpretation mode: tidy_handler handleMode
proof unfold_locales
  fix s fd cmd
  assume t: "tidy s" "findClient s fd \<noteq> None" "clean_command cmd"
  have target: "getParameters cmd \<noteq> [] \<Longrightarrow> clean (getParameters cmd ! 0)"
    using clean_parameter(1) [OF t(3), of 0] by simp
  have "list_all clean_change changes"
    if "parseChannelModeChanges (getParameters cmd) = Some changes" "getParameters cmd \<noteq> []" "length (getParameters cmd) \<noteq> 1"
    for changes
  proof -
    have "1 < length (getParameters cmd)"
      using that(2,3) by (cases "getParameters cmd") auto
    then show ?thesis
      using that(1) clean_parameter(1) [OF t(3), of 1] t(3)
      by (auto simp: parseChannelModeChanges_def Let_def clean_command_def split: if_splits option.splits
          intro: clean_mode_loop)
  qed
  then show "tidy (handleMode s fd cmd)"
    using t target
    by (auto simp: handleMode_def Let_def tidy_simps findChannel_def intro!: tidy_apply_changes split: option.split)
qed (auto simp: handleMode_def Let_def leaving_simps intro!: leaving_apply_changes split: option.split)

section \<open>Dispatch and reading\<close>

interpretation dispatch: tidy_handler dispatchCommand
  by unfold_locales
    (simp_all add: dispatchCommand_def Let_def
      ping.tidy quit.tidy cap.tidy pass.tidy user.tidy nick.tidy privmsg.tidy join.tidy topic.tidy kick.tidy
      invite.tidy mode.tidy unknown.tidy
      ping.leaving quit.leaving cap.leaving pass.leaving user.leaving nick.leaving privmsg.leaving join.leaving
      topic.leaving kick.leaving invite.leaving mode.leaving unknown.leaving)

lemma tidy_line: "\<lbrakk>tidy s; findClient s fd \<noteq> None; clean line\<rbrakk> \<Longrightarrow> tidy (handleCompleteLine s fd line)"
  by (simp add: handleCompleteLine_eq dispatch.tidy clean_parse)

lemma leaving_line: "leaving s g \<Longrightarrow> leaving (handleCompleteLine s fd line) g"
  by (simp add: handleCompleteLine_eq dispatch.leaving)

lemma after_pop_fields [simp]:
  "tidy_client (after_pop c) = tidy_client c" "c_disconnectRequested (after_pop c) = c_disconnectRequested c"
  by (auto simp: after_pop_def tidy_client_def dest: popLine_Some split: option.split)

lemma tidy_process_lines: "tidy s \<Longrightarrow> tidy (process_lines s fd)"
proof (rule process_lines_rel [where R = "\<lambda>s t. tidy s \<longrightarrow> tidy t", rule_format])
  fix s c l c'
  assume "findClient s fd = Some c" "popLine c = Some (l, c')" "tidy s"
  then show "tidy (line_step s fd l)"
    using popLine_no_newline [of c l c'] by (intro tidy_line tidy_on_client) (auto simp: clean_def)
qed simp_all

lemma leaving_process_lines: "leaving s g \<Longrightarrow> leaving (process_lines s fd) g"
  by (rule process_lines_rel [where R = "\<lambda>s t. leaving s g \<longrightarrow> leaving t g", rule_format])
    (auto intro!: leaving_line leaving_on_client)

lemma tidy_receive: "tidy s \<Longrightarrow> tidy (snd (receiveFromClient recv s i))"
  by (auto simp: receiveFromClient_def Let_def appendInput_def tidy_client_def
      intro!: tidy_process_lines tidy_on_client split: option.split recv_result.split)

section \<open>Pending input\<close>

text \<open>What a client has sent and the server has not handled: at most one unfinished line.\<close>

definition settled :: "client \<Rightarrow> bool" where
  "settled c \<longleftrightarrow> length (c_inputBuffer c) \<le> MAX_PENDING_INPUT
     \<and> (newline_char \<notin> set (c_inputBuffer c) \<or> c_disconnectRequested c)"

definition input_ok_but :: "descriptor set \<Rightarrow> server \<Rightarrow> bool" where
  "input_ok_but except s \<longleftrightarrow> (\<forall>fd c. fd \<notin> except \<longrightarrow> findClient s fd = Some c \<longrightarrow> settled c)"

abbreviation input_ok :: "server \<Rightarrow> bool" where
  "input_ok \<equiv> input_ok_but {}"

definition same_input :: "descriptor \<Rightarrow> server \<Rightarrow> server \<Rightarrow> bool" where
  "same_input g s t \<longleftrightarrow>
     map_option c_inputBuffer (findClient t g) = map_option c_inputBuffer (findClient s g)
     \<and> (leaving s g \<longrightarrow> leaving t g)"

lemma same_input_refl [simp]: "same_input g s s"
  by (simp add: same_input_def)

lemma same_input_trans: "\<lbrakk>same_input g s t; same_input g t u\<rbrakk> \<Longrightarrow> same_input g s u"
  by (simp add: same_input_def)

lemma settled_same:
  assumes "same_input g s t" "\<And>c. findClient s g = Some c \<Longrightarrow> settled c" "findClient t g = Some d"
  shows "settled d"
proof -
  obtain c where "findClient s g = Some c" "c_inputBuffer d = c_inputBuffer c"
    "c_disconnectRequested c \<Longrightarrow> c_disconnectRequested d"
    using assms(1,3) by (cases "findClient s g") (auto simp: same_input_def leaving_def)
  with assms(2) show ?thesis
    by (auto simp: settled_def)
qed

lemma same_input_line: "same_input g s (handleCompleteLine s fd line)"
  by (simp add: same_input_def line_facts(5) leaving_line)

lemma same_input_other: "g \<noteq> fd \<Longrightarrow> same_input g s (on_client fd f s)"
  by (simp add: same_input_def leaving_def)

lemma process_lines_others: "g \<noteq> fd \<Longrightarrow> same_input g s (process_lines s fd)"
  by (rule process_lines_rel [where R = "same_input g"])
    (auto intro: same_input_trans same_input_other same_input_line)

text \<open>The loop stops only at an unfinished line or at a client that is leaving.\<close>

lemma process_lines_done:
  "findClient (process_lines s fd) fd = Some d \<Longrightarrow> newline_char \<notin> set (c_inputBuffer d) \<or> c_disconnectRequested d"
proof (induction s fd arbitrary: d rule: process_lines.induct)
  case (1 s fd)
  note found = "1.prems"
  show ?case
  proof (cases "findClient s fd")
    case None
    with found show ?thesis
      by (simp add: process_lines.simps)
  next
    case (Some c)
    show ?thesis
    proof (cases "popLine c")
      case None
      then show ?thesis
        using found Some None by (simp add: process_lines.simps) (simp add: popLine_None_iff)
    next
      case pop: (Some p)
      obtain l c' where p: "p = (l, c')"
        by fastforce
      let ?t = "line_step s fd l"
      have step: "process_lines s fd =
          (if isDisconnectRequested (client_at ?t fd) then ?t else process_lines ?t fd)"
        using Some pop p by (subst process_lines.simps) (simp add: Let_def)
      show ?thesis
      proof (cases "isDisconnectRequested (client_at ?t fd)")
        case True
        with step found show ?thesis
          by (simp add: client_at_def isDisconnectRequested_def)
      next
        case False
        then show ?thesis
          using "1.IH" [OF Some pop p [symmetric] refl refl False] step found by simp
      qed
    qed
  qed
qed

lemma receive_others: "g \<noteq> pf_fd (s_pollFds s ! i) \<Longrightarrow> same_input g s (snd (receiveFromClient recv s i))"
  using same_input_trans [OF same_input_other process_lines_others]
  by (auto simp: receiveFromClient_def Let_def split: option.split recv_result.split)

lemma receive_settled:
  assumes "receiveFromClient recv s i = (True, t)" "findClient t (pf_fd (s_pollFds s ! i)) = Some d"
  shows "settled d"
  using assms process_lines_done [of _ "pf_fd (s_pollFds s ! i)" d]
  by (auto simp: receiveFromClient_def Let_def settled_def client_at_def getInputSize_def
      split: option.splits recv_result.splits if_splits)

lemma receive_input:
  assumes "input_ok s" "receiveFromClient recv s i = (b, t)"
  shows "input_ok_but (if b then {} else {pf_fd (s_pollFds s ! i)}) t"
proof -
  have "settled d" if d: "findClient t g = Some d" "b \<or> g \<noteq> pf_fd (s_pollFds s ! i)" for g d
  proof (cases "g = pf_fd (s_pollFds s ! i)")
    case True
    with d assms(2) show ?thesis
      using receive_settled by auto
  next
    case False
    then show ?thesis
      using settled_same [OF receive_others [OF False] _ , of recv d] assms d(1) by (simp add: input_ok_but_def)
  qed
  then show ?thesis
    by (auto simp: input_ok_but_def)
qed

section \<open>Every reachable state\<close>

definition orderly :: "server \<Rightarrow> bool" where
  "orderly s \<longleftrightarrow> good s \<and> tidy s \<and> input_ok s"

lemma settled_deliver [simp]: "settled c \<Longrightarrow> settled (deliver l c)"
  by (auto simp: settled_def deliver_def accessor_defs)

lemma remove_input:
  assumes "good s" "client_entry s i" "input_ok_but {pf_fd (s_pollFds s ! i)} s"
  shows "input_ok (removeClient s i)"
proof -
  obtain c where c: "findClient s (pf_fd (s_pollFds s ! i)) = Some c"
    using removeClient_at(1) [OF assms(1,2)] by blast
  have "server_inv s"
    using assms(1) by (simp add: good_def)
  then show ?thesis
    using assms(3) by (auto simp: input_ok_but_def findClient_removeClient [OF _ c] split: if_splits)
qed

lemma remove_tidy:
  assumes "good s" "client_entry s i" "tidy s"
  shows "tidy (removeClient s i)"
proof -
  obtain c where c: "findClient s (pf_fd (s_pollFds s ! i)) = Some c"
    using removeClient_at(1) [OF assms(1,2)] by blast
  have inv: "server_inv s" "om_ok (s_channels s)"
    using assms(1) by (simp_all add: good_def server_inv_def channels_ok_def)
  have "clean (quit_line c)"
    using tidy_clientD [OF assms(3) c] by (simp add: quit_line_def getDisconnectReason_def)
  moreover have "tidy_channel ch"
    if "om_find (s_channels (removeClient s i)) key = Some ch" for key ch
    using that assms(3) om_find_purge [OF inv(2)] tidy_operations(2,3)
    by (auto simp: removeClient_eq [OF inv(1) c] quitBroadcast.frame tidy_def Let_def
        split: option.splits if_splits)
  ultimately show ?thesis
    using assms(3) by (auto simp: tidy_def findClient_removeClient [OF inv(1) c] tidy_deliver split: if_splits)
qed

lemma orderly_remove: "\<lbrakk>orderly s; client_entry s i\<rbrakk> \<Longrightarrow> orderly (removeClient s i)"
  using remove_input [of s i] by (auto simp: orderly_def good_remove remove_tidy input_ok_but_def)

lemma flush_find:
  assumes "flushClientOutput w s i = (b, t)" "findClient t g = Some d"
  shows "\<exists>c. findClient s g = Some c \<and> (settled c \<longrightarrow> settled d) \<and> (tidy_client c \<longrightarrow> tidy_client d)"
proof -
  have "settled c \<Longrightarrow> settled (consumeOutput n c)" "settled c \<Longrightarrow> settled (requestDisconnect r c)"
    "tidy_client c \<Longrightarrow> tidy_client (consumeOutput n c)"
    "clean r \<Longrightarrow> tidy_client c \<Longrightarrow> tidy_client (requestDisconnect r c)" for c n r
    by (auto simp: settled_def tidy_client_def consumeOutput_def accessor_defs line_buffer_drop)
  moreover have "findClient (clear_pollout j u) = findClient u" for j u
    by (simp add: clear_pollout_def)
  ultimately show ?thesis
    using assms by (auto simp: flushClientOutput_def Let_def split: option.splits if_splits)
qed

lemma flush_channels: "flushClientOutput w s i = (b, t) \<Longrightarrow> s_channels t = s_channels s"
  by (auto simp: flushClientOutput_def Let_def clear_pollout_def split: option.splits if_splits)

lemma orderly_flush:
  assumes "orderly s" "client_entry s i" "flushClientOutput w s i = (b, t)"
  shows "orderly t"
proof -
  have "good t"
    using good_flush [OF _ assms(2,3)] assms(1) by (simp add: orderly_def)
  moreover have "tidy t" "input_ok t"
    using assms(1) flush_find [OF assms(3)] flush_channels [OF assms(3)]
    unfolding orderly_def tidy_def input_ok_but_def by metis+
  ultimately show ?thesis
    by (simp add: orderly_def)
qed

lemma orderly_accept:
  assumes "orderly s" "accept_ok s a" "acceptClient a nb s = (what, t)"
  shows "orderly t"
proof -
  have "good t"
    using good_accept [OF _ assms(2,3)] assms(1) by (simp add: orderly_def)
  moreover have "tidy_client (new_client a)" "settled (new_client a)"
    by (simp_all add: tidy_client_def settled_def new_client_def)
  ultimately show ?thesis
    using assms by (auto simp: orderly_def good_def acceptClient_eq tidy_def input_ok_but_def split: if_splits)
qed

lemma poll_fills_sel: "findClient (poll_fills e s) = findClient s" "s_channels (poll_fills e s) = s_channels s"
  by (simp_all add: poll_fills_def)

interpretation orderly_loop: loop_invariant orderly
proof unfold_locales
  fix s t :: server and i and r :: "descriptor \<Rightarrow> recv_result"
  assume s: "orderly s" "client_entry s i"
  have tidy: "tidy t" if "receiveFromClient r s i = (b, t)" for b
    using tidy_receive [of s r i] s(1) that by (simp add: orderly_def)
  show "orderly t" if "receiveFromClient r s i = (True, t)"
    using good_receive [OF _ s(2) that] s(1) tidy [OF that] receive_input [OF _ that] by (simp add: orderly_def)
  show "orderly (removeClient t i)" if r: "receiveFromClient r s i = (False, t)"
  proof -
    have t: "good t" "client_entry t i"
      using good_receive [OF _ s(2) r] s(1) by (simp_all add: orderly_def)
    have "pf_fd (s_pollFds t ! i) = pf_fd (s_pollFds s ! i)"
      using same_tables_poll(2) [OF receive_tables [of s _ i]] s(2) r by (metis client_entry_def snd_conv)
    then have "input_ok_but {pf_fd (s_pollFds t ! i)} t"
      using receive_input [OF _ r] s(1) by (simp add: orderly_def)
    then show ?thesis
      by (simp add: orderly_def t tidy [OF r] good_remove remove_tidy remove_input)
  qed
qed (auto simp: orderly_remove orderly_def [of "poll_fills e s" for e s] poll_fills_sel good_poll tidy_def input_ok_but_def
    intro: orderly_flush orderly_accept, simp_all add: orderly_def tidy_def input_ok_but_def good_poll)

end
