(* ===== verification/Irc_Samples.thy ===== *)
theory Irc_Samples
  imports Irc_Loop
begin

text \<open>
  A concrete server on which the properties are shown not to be vacuous: Alice, who operates
  \<open>#room\<close>, Bob, who is a member, Dave, who is in no channel, and a connection that has not
  registered.
\<close>

definition sample_client :: "string \<Rightarrow> descriptor \<Rightarrow> client" where
  "sample_client nickname fd =
     setRegistered True (setUser ''u'' ''r'' (setNickname nickname (setPasswordAccepted (new_client fd))))"

definition sample_poll :: "descriptor \<Rightarrow> pollfd" where
  "sample_poll fd = \<lparr>pf_fd = fd, pf_events = POLLIN, pf_revents = 0\<rparr>"

definition sample_channel :: channel where
  "sample_channel = (new_channel ''#Room'')\<lparr>ch_members := [(4, new_member None True), (5, new_member None False)]\<rparr>"

definition sample_server :: server where
  "sample_server =
     \<lparr>s_listenerFd = 3, s_password = ''pw'',
      s_pollFds = map sample_poll [3, 4, 5, 6, 7],
      s_clients = [(4, sample_client ''Alice'' 4), (5, sample_client ''Bob'' 5), (6, new_client 6),
        (7, sample_client ''Dave'' 7)],
      s_nicknameIndex = [(''alice'', 4), (''bob'', 5), (''dave'', 7)],
      s_channels = [(''#room'', sample_channel)],
      s_openFds = [3, 4, 5, 6, 7]\<rparr>"

lemmas sample_defs = sample_server_def sample_client_def sample_channel_def sample_poll_def new_client_def
  new_channel_def new_member_def accessor_defs

text \<open>A command as the parser leaves it.\<close>

definition new_command :: "string \<Rightarrow> string list \<Rightarrow> command" where
  "new_command name parameters = \<lparr>cmd_valid = True, cmd_name = name, cmd_parameters = parameters\<rparr>"

lemma new_command_sel [simp]:
  "getCommandName (new_command name ps) = name" "getParameters (new_command name ps) = ps"
  "getParameterCount (new_command name ps) = length ps" "isValid (new_command name ps)"
  by (simp_all add: new_command_def accessor_defs)

text \<open>Lookups in the sample, by evaluation.\<close>

lemma fold_names [simp]:
  "ircCaseFold ''Alice'' = ''alice''" "ircCaseFold ''Bob'' = ''bob''" "ircCaseFold ''Dave'' = ''dave''"
  "ircCaseFold ''#Room'' = ''#room''" "ircCaseFold ''#room'' = ''#room''" "ircCaseFold ''bob'' = ''bob''"
  "ircCaseFold ''#ROOM'' = ''#room''" "ircCaseFold ''#new'' = ''#new''"
  by code_simp+

lemma sample_names_ordered: "sorted_wrt (<) [''alice'', ''bob'', ''dave'']"
  by code_simp

lemma sample_find: "findClient sample_server fd =
    (if fd = 4 then Some (sample_client ''Alice'' 4) else if fd = 5 then Some (sample_client ''Bob'' 5)
     else if fd = 6 then Some (new_client 6) else if fd = 7 then Some (sample_client ''Dave'' 7) else None)"
  by (simp add: findClient_def sample_server_def)

lemma sample_find_channel:
  "findChannel sample_server name = (if ircCaseFold name = ''#room'' then Some sample_channel else None)"
  by (simp add: findChannel_def sample_server_def)

lemma sample_index: "om_find (s_nicknameIndex sample_server) n =
    (if n = ''alice'' then Some 4 else if n = ''bob'' then Some 5 else if n = ''dave'' then Some 7 else None)"
  by (simp add: sample_server_def)

lemma sample_client_sel [simp]:
  "c_fd (sample_client n fd) = fd" "c_nickname (sample_client n fd) = n"
  "c_registered (sample_client n fd)" "c_passwordAccepted (sample_client n fd)" "c_hasUser (sample_client n fd)"
  "c_outputBuffer (sample_client n fd) = []" "c_disconnectRequested (sample_client n fd) = False"
  "c_username (sample_client n fd) = ''u''"
  by (simp_all add: sample_client_def new_client_def accessor_defs)

lemma sample_clients_ok: "clients_ok sample_server"
  unfolding clients_ok_def sample_find
  by (simp add: isRegistrationReady_def) (simp add: sample_server_def)

lemma sample_index_ok: "index_ok sample_server"
  unfolding index_ok_def sample_find
  using sample_names_ordered by (simp add: sample_server_def om_ok_def)

lemma sample_channels_ok: "channels_ok sample_server"
proof -
  have "channel_inv sample_server ''#room'' sample_channel"
    unfolding channel_inv_def sample_find
    by (simp add: sample_channel_def new_channel_def channel_ok_def channel_empty_def hasMember_def om_ok_def)
  then show ?thesis
    by (simp add: channels_ok_def sample_server_def)
qed

lemma sample_inv: "server_inv sample_server"
  using sample_clients_ok sample_index_ok sample_channels_ok
  by (simp add: server_inv_def) (auto simp: poll_ok_def fds_ok_def sample_server_def sample_poll_def)

lemma sample_good: "good sample_server"
  using sample_inv
  by (simp add: good_def output_ok_def complete_def sample_find isRegistrationReady_def)

end
