(* ===== verification/Irc_Access.thy ===== *)
theory Irc_Access
  imports Irc_Samples
begin

text \<open>
  Who may do what: the password gate and the registration gate of \<open>dispatchCommand\<close>, and
  the rights of channel operators. The locale \<open>privileged_handler\<close> extends the contract of a handler by what it
  must not do for a client without operator rights.
\<close>

section \<open>The password gate\<close>

definition password_state :: "server \<Rightarrow> descriptor \<Rightarrow> bool option" where
  "password_state s fd = map_option c_passwordAccepted (findClient s fd)"

lemma password_state_skel: "skel s = skel t \<Longrightarrow> password_state s fd = password_state t fd"
  using arg_cong [OF skel_cong(9) [of s t fd], of "map_option c_passwordAccepted"]
  by (simp add: password_state_def option.map_comp comp_def)

context output_op
begin

lemma password: "password_state (f s) fd = password_state s fd"
  by (rule password_state_skel [OF skel])

end

lemmas password_output [simp] =
  queueLine.password sendNumeric.password broadcast.password queue_to_each.password
  channelNames.password greeting.password disconnect.password

lemma password_tables [simp]:
  "password_state (s\<lparr>s_channels := cs\<rparr>) = password_state s"
  "password_state (s\<lparr>s_nicknameIndex := ix\<rparr>) = password_state s"
  "password_state (on_channel k f s) = password_state s"
  by (simp_all add: password_state_def fun_eq_iff)

lemma password_on_client:
  "(\<And>c. c_passwordAccepted (f c) = c_passwordAccepted c) \<Longrightarrow> password_state (on_client fd f s) g = password_state s g"
  by (simp add: password_state_def option.map_comp comp_def)

lemma password_tryComplete [simp]: "password_state (tryCompleteRegistration s fd) g = password_state s g"
  by (simp add: tryCompleteRegistration_def password_on_client setRegistered_def)

lemma password_change_nickname [simp]: "password_state (change_nickname s fd n) g = password_state s g"
  by (simp add: change_nickname_def Let_def password_on_client setNickname_def)

lemma password_modes: "password_state (applyChannelModeChange s fd key change) g = password_state s g"
  by (simp add: applyChannelModeChange_def applyInviteOnlyMode_def applyTopicRestrictedMode_def
      applyKeyMode_def applyOperatorMode_def applyUserLimitMode_def broadcastModeChange_def Let_def
      split: option.split)

lemma password_apply_changes: "password_state (apply_changes s fd key cs) g = password_state s g"
  by (induction s fd key cs rule: apply_changes.induct) (simp_all add: password_modes)

lemma password_handlers:
  "password_state (handlePing s fd cmd) g = password_state s g"
  "password_state (handleQuit s fd cmd) g = password_state s g"
  "password_state (handleCap s fd cmd) g = password_state s g"
  "password_state (handleUnknownCommand s fd cmd) g = password_state s g"
  "password_state (handleUser s fd cmd) g = password_state s g"
  "password_state (handleNick s fd cmd) g = password_state s g"
  by (simp_all add: handlePing_def handleQuit_def handleCap_def handleUnknownCommand_def handleUser_def
      handleNick_def Let_def password_on_client setUser_def)

lemma password_join_replies [simp]: "password_state (join_replies s fd key) g = password_state s g"
  by (simp add: join_replies_def Let_def)

lemma password_removeMember [simp]: "password_state (removeMemberFromChannel s k fd) g = password_state s g"
  by (simp add: removeMemberFromChannel_def Let_def split: option.split)

lemma password_channel_handlers:
  "password_state (handlePrivmsg s fd cmd) g = password_state s g"
  "password_state (handleJoin s fd cmd) g = password_state s g"
  "password_state (handleTopic s fd cmd) g = password_state s g"
  "password_state (handleKick s fd cmd) g = password_state s g"
  "password_state (handleInvite s fd cmd) g = password_state s g"
  "password_state (handleMode s fd cmd) g = password_state s g"
       apply (simp add: handlePrivmsg_def Let_def split: option.split)
      apply (simp add: handleJoin_def Let_def split: option.split)
     apply (simp add: handleTopic_def Let_def split: option.split)
    apply (simp add: handleKick_def Let_def split: option.split)
   apply (simp add: handleInvite_def Let_def split: option.split)
  apply (simp add: handleMode_def Let_def password_apply_changes split: option.split)
  done

lemma password_others:
  "getCommandName cmd \<noteq> ''PASS'' \<Longrightarrow> password_state (dispatchCommand s fd cmd) g = password_state s g"
  by (simp add: dispatchCommand_def Let_def password_handlers password_channel_handlers)

lemma password_pass:
  assumes "findClient s fd \<noteq> None"
  shows "password_state (handlePass s fd cmd) g =
    (if g = fd \<and> \<not> isRegistered (client_at s fd) \<and> 1 \<le> getParameterCount cmd
        \<and> getParameters cmd ! 0 = s_password s
     then Some True else password_state s g)"
  using assms by (auto simp: handlePass_def password_state_def [of "on_client fd f s" for f s]
      setPasswordAccepted_def) (simp add: password_state_def)

section \<open>Operator rights\<close>

definition channel_modes :: "channel \<Rightarrow> bool \<times> bool \<times> bool \<times> string \<times> bool \<times> size_word" where
  "channel_modes ch =
     (ch_inviteOnly ch, ch_topicRestricted ch, ch_hasKey ch, ch_key ch, ch_hasUserLimit ch, ch_userLimit ch)"

text \<open>
  A change of a channel that \<open>fd\<close> may cause without being an operator: the modes and the
  operators stay, nobody is removed, nobody but \<open>fd\<close> enters, and a protected topic stays.
\<close>

definition unprivileged :: "descriptor \<Rightarrow> channel \<Rightarrow> channel \<Rightarrow> bool" where
  "unprivileged fd ch ch' \<longleftrightarrow>
     channel_modes ch' = channel_modes ch
     \<and> (\<forall>g. IsMemberOperator ch' g \<longleftrightarrow> IsMemberOperator ch g)
     \<and> (\<forall>g. hasMember ch g \<longrightarrow> hasMember ch' g)
     \<and> (\<forall>g. hasMember ch' g \<longrightarrow> hasMember ch g \<or> g = fd)
     \<and> (ch_topicRestricted ch \<longrightarrow> ch_topic ch' = ch_topic ch)"

lemma unprivileged_refl [simp]: "unprivileged fd ch ch"
  by (simp add: unprivileged_def)

locale privileged_handler = irc_handler +
  assumes privilege: "\<lbrakk>server_inv s; findClient s fd = Some c; om_find (s_channels s) k = Some ch;
    \<not> IsMemberOperator ch fd\<rbrakk> \<Longrightarrow>
    \<exists>ch'. om_find (s_channels (h s fd cmd)) k = Some ch' \<and> unprivileged fd ch ch'"
begin

lemma modes_need_operator:
  "\<lbrakk>server_inv s; findClient s fd = Some c; om_find (s_channels s) k = Some ch;
    om_find (s_channels (h s fd cmd)) k = Some ch'; channel_modes ch' \<noteq> channel_modes ch\<rbrakk> \<Longrightarrow>
   IsMemberOperator ch fd"
  using privilege [of s fd c k ch cmd] by (auto simp: unprivileged_def)

lemma operators_need_operator:
  "\<lbrakk>server_inv s; findClient s fd = Some c; om_find (s_channels s) k = Some ch;
    om_find (s_channels (h s fd cmd)) k = Some ch'; IsMemberOperator ch' g \<noteq> IsMemberOperator ch g\<rbrakk> \<Longrightarrow>
   IsMemberOperator ch fd"
  using privilege [of s fd c k ch cmd] by (auto simp: unprivileged_def)

end

lemma same_channels_tryComplete [simp]: "s_channels (tryCompleteRegistration s fd) = s_channels s"
  by (simp add: tryCompleteRegistration_def)

interpretation ping: privileged_handler handlePing
  by unfold_locales (simp add: handlePing_def)

interpretation quit: privileged_handler handleQuit
  by unfold_locales (simp add: handleQuit_def Let_def)

interpretation cap: privileged_handler handleCap
  by unfold_locales (simp add: handleCap_def Let_def)

interpretation unknown: privileged_handler handleUnknownCommand
  by unfold_locales (simp add: handleUnknownCommand_def)

interpretation pass: privileged_handler handlePass
  by unfold_locales (simp add: handlePass_def)

interpretation user: privileged_handler handleUser
  by unfold_locales (simp add: handleUser_def Let_def)

interpretation privmsg: privileged_handler handlePrivmsg
  by unfold_locales (simp add: handlePrivmsg_def Let_def split: option.split)

lemma unprivileged_rename [simp]: "unprivileged fd ch (rename_invite o' n ch)"
  by (simp add: unprivileged_def rename_invite_def channel_modes_def IsMemberOperator_def hasMember_def
      addInvite_def removeInvite_def)

interpretation nick: privileged_handler handleNick
  by unfold_locales (simp add: handleNick_def Let_def)

lemma s_channels_join_replies [simp]: "s_channels (join_replies s fd key) = s_channels s"
  by (simp add: join_replies_def Let_def)

lemma unprivileged_join:
  "unprivileged fd ch (removeInvite n (snd (addMember fd False ch)))"
proof -
  have "IsMemberOperator (removeInvite n ch') g = IsMemberOperator ch' g" for ch' g
    by (simp add: removeInvite_def IsMemberOperator_def)
  then show ?thesis
    using op_hasMember [of ch]
    by (auto simp: unprivileged_def) (auto simp: channel_modes_def addMember_def removeInvite_def)
qed

interpretation join: privileged_handler handleJoin
proof unfold_locales
  fix s :: server and fd c k ch cmd
  assume "server_inv s" "findClient s fd = Some c" "om_find (s_channels s) k = Some ch" "\<not> IsMemberOperator ch fd"
  moreover from this have "getFd (client_at s fd) = fd"
    by (simp add: client_at_def getFd_def client_fd_found)
  ultimately show "\<exists>ch'. om_find (s_channels (handleJoin s fd cmd)) k = Some ch' \<and> unprivileged fd ch ch'"
    by (cases "k = ircCaseFold (getParameters cmd ! 0)")
      (simp_all add: handleJoin_def Let_def findChannel_def unprivileged_join split: option.split)
qed

lemma unprivileged_topic: "\<not> ch_topicRestricted ch \<Longrightarrow> unprivileged fd ch (setTopic t ch)"
  by (simp add: unprivileged_def channel_modes_def setTopic_def IsMemberOperator_def hasMember_def)

interpretation topic: privileged_handler handleTopic
proof unfold_locales
  fix s :: server and fd c k ch cmd
  assume "server_inv s" "findClient s fd = Some c" "om_find (s_channels s) k = Some ch" "\<not> IsMemberOperator ch fd"
  moreover from this have "getFd (client_at s fd) = fd"
    by (simp add: client_at_def getFd_def client_fd_found)
  ultimately show "\<exists>ch'. om_find (s_channels (handleTopic s fd cmd)) k = Some ch' \<and> unprivileged fd ch ch'"
    by (auto simp: handleTopic_def Let_def findChannel_def isTopicRestricted_def unprivileged_topic split: option.split)
qed

lemma removeMember_other:
  assumes "server_inv s" "k \<noteq> key" "om_find (s_channels s) key = Some ch"
  shows "om_find (s_channels (removeMemberFromChannel s (Some key) fd)) k = om_find (s_channels s) k"
proof -
  have "ircCaseFold (ch_name ch) = key"
    using assms(1,3) by (simp add: server_inv_def channels_ok_def channel_inv_def)
  then show ?thesis
    using assms by (simp add: removeMemberFromChannel_def Let_def channel_at_def getName_def)
qed

interpretation kick: privileged_handler handleKick
proof unfold_locales
  fix s :: server and fd c k ch cmd
  assume "server_inv s" "findClient s fd = Some c" "om_find (s_channels s) k = Some ch" "\<not> IsMemberOperator ch fd"
  moreover from this have "getFd (client_at s fd) = fd"
    by (simp add: client_at_def getFd_def client_fd_found)
  ultimately show "\<exists>ch'. om_find (s_channels (handleKick s fd cmd)) k = Some ch' \<and> unprivileged fd ch ch'"
    by (cases "k = ircCaseFold (getParameters cmd ! 0)")
      (auto simp: handleKick_def Let_def findChannel_def removeMember_other split: option.split)
qed

interpretation invite: privileged_handler handleInvite
proof unfold_locales
  fix s :: server and fd c k ch cmd
  assume "server_inv s" "findClient s fd = Some c" "om_find (s_channels s) k = Some ch" "\<not> IsMemberOperator ch fd"
  moreover from this have "getFd (client_at s fd) = fd"
    by (simp add: client_at_def getFd_def client_fd_found)
  ultimately show "\<exists>ch'. om_find (s_channels (handleInvite s fd cmd)) k = Some ch' \<and> unprivileged fd ch ch'"
    by (auto simp: handleInvite_def Let_def findChannel_def split: option.split)
qed

interpretation mode: privileged_handler handleMode
proof unfold_locales
  fix s :: server and fd c k ch cmd
  assume "server_inv s" "findClient s fd = Some c" "om_find (s_channels s) k = Some ch" "\<not> IsMemberOperator ch fd"
  moreover from this have "getFd (client_at s fd) = fd"
    by (simp add: client_at_def getFd_def client_fd_found)
  ultimately show "\<exists>ch'. om_find (s_channels (handleMode s fd cmd)) k = Some ch' \<and> unprivileged fd ch ch'"
    by (cases "k = ircCaseFold (getParameters cmd ! 0)")
      (auto simp: handleMode_def Let_def findChannel_def apply_changes_fold modes.fold_others split: option.split)
qed

interpretation dispatch: privileged_handler dispatchCommand
  by unfold_locales
    (simp add: dispatchCommand_def Let_def ping.privilege quit.privilege cap.privilege pass.privilege
      user.privilege nick.privilege privmsg.privilege join.privilege topic.privilege kick.privilege
      invite.privilege mode.privilege unknown.privilege)

section \<open>Changes that stay with the caller\<close>

lemma find_other [simp]:
  assumes "g \<noteq> fd"
  shows "findClient (queue_line s fd line) g = findClient s g"
    "findClient (send_numeric s fd numeric arguments) g = findClient s g"
    "findClient (SendWelcome s fd) g = findClient s g"
    "findClient (tryCompleteRegistration s fd) g = findClient s g"
    "findClient (change_nickname s fd n) g = findClient s g"
  using assms
  by (simp_all add: findClient_queueLine_other sendNumeric_def SendWelcome_def tryCompleteRegistration_def
      change_nickname_def Let_def)

text \<open>A channel without its invitations, and the same for a whole table.\<close>

definition room_view :: "channel \<Rightarrow> channel" where
  "room_view ch = ch\<lparr>ch_invitedUsers := []\<rparr>"

lemma room_view_rename [simp]: "room_view (rename_invite o' n ch) = room_view ch"
  by (simp add: room_view_def rename_invite_def addInvite_def removeInvite_def)

lemma om_map_comp: "om_map f (om_map g m) = om_map (\<lambda>v. f (g v)) m"
  by (induction m) (auto simp: om_map_def)

lemma isolated_register:
  assumes "\<not> isRegistered (client_at s fd)" "g \<noteq> fd"
  shows "findClient (handlePass s fd cmd) g = findClient s g" "findClient (handleUser s fd cmd) g = findClient s g"
    "findClient (handleNick s fd cmd) g = findClient s g"
  using assms by (simp_all add: handlePass_def handleUser_def handleNick_def Let_def)

lemma isolated_plain:
  assumes "g \<noteq> fd"
  shows "findClient (handlePing s fd cmd) g = findClient s g" "findClient (handleQuit s fd cmd) g = findClient s g"
    "findClient (handleCap s fd cmd) g = findClient s g" "findClient (handleUnknownCommand s fd cmd) g = findClient s g"
  using assms by (simp_all add: handlePing_def handleQuit_def handleCap_def handleUnknownCommand_def Let_def)

definition channel_commands :: "string set" where
  "channel_commands = {''PRIVMSG'', ''JOIN'', ''TOPIC'', ''KICK'', ''INVITE'', ''MODE''}"

lemma gate:
  assumes "\<not> isRegistered (client_at s fd)"
  shows "handlePrivmsg s fd cmd = send_numeric s fd ''451'' '':You have not registered''"
    "handleJoin s fd cmd = send_numeric s fd ''451'' '':You have not registered''"
    "handleTopic s fd cmd = send_numeric s fd ''451'' '':You have not registered''"
    "handleKick s fd cmd = send_numeric s fd ''451'' '':You have not registered''"
    "handleInvite s fd cmd = send_numeric s fd ''451'' '':You have not registered''"
    "handleMode s fd cmd = send_numeric s fd ''451'' '':You have not registered''"
  using assms
  by (simp_all add: handlePrivmsg_def handleJoin_def handleTopic_def handleKick_def handleInvite_def
      handleMode_def Let_def)

lemma rooms_handlers:
  "om_map room_view (s_channels (handlePing s fd cmd)) = om_map room_view (s_channels s)"
  "om_map room_view (s_channels (handleQuit s fd cmd)) = om_map room_view (s_channels s)"
  "om_map room_view (s_channels (handleCap s fd cmd)) = om_map room_view (s_channels s)"
  "om_map room_view (s_channels (handleUnknownCommand s fd cmd)) = om_map room_view (s_channels s)"
  "om_map room_view (s_channels (handlePass s fd cmd)) = om_map room_view (s_channels s)"
  "om_map room_view (s_channels (handleUser s fd cmd)) = om_map room_view (s_channels s)"
  "om_map room_view (s_channels (handleNick s fd cmd)) = om_map room_view (s_channels s)"
  by (simp_all add: handlePing_def handleQuit_def handleCap_def handleUnknownCommand_def handlePass_def
      handleUser_def handleNick_def Let_def om_map_comp)

section \<open>Properties: gates\<close>

text \<open>C5: A client's password is accepted by one kind of command only: a PASS of that client
  itself, not yet registered, whose first parameter is the server password.\<close>

theorem password_gate:
  assumes "findClient s fd = Some c" "findClient s g = Some d" "\<not> c_passwordAccepted d"
    and "findClient (dispatchCommand s fd cmd) g = Some e" "c_passwordAccepted e"
  shows "g = fd \<and> \<not> c_registered d \<and> getCommandName cmd = ''PASS''
    \<and> 1 \<le> getParameterCount cmd \<and> getParameters cmd ! 0 = s_password s"
proof (cases "getCommandName cmd = ''PASS''")
  case True
  then have "password_state (handlePass s fd cmd) g = Some True"
    using assms(4,5) by (simp add: dispatchCommand_def Let_def password_state_def)
  moreover have "password_state s g = Some False"
    using assms(2,3) by (simp add: password_state_def)
  ultimately show ?thesis
    using True assms(1,2) password_pass [of s fd cmd g]
    by (auto simp: client_at_def isRegistered_def split: if_splits)
next
  case False
  with password_others [OF False, of s fd g] assms show ?thesis
    by (simp add: password_state_def)
qed


lemma sample_pass:
  "findClient (dispatchCommand sample_server 6 (new_command ''PASS'' [''pw''])) 6 = Some (setPasswordAccepted (new_client 6))"
proof -
  have "s_password sample_server = ''pw''"
    by (simp add: sample_server_def)
  then show ?thesis
    by (simp add: dispatchCommand_def handlePass_def tryCompleteRegistration_def client_at_def sample_find
        isRegistered_def isRegistrationReady_def setPasswordAccepted_def)
qed

theorem password_gate_witness:
  "getCommandName (new_command ''PASS'' [''pw'']) = ''PASS'' \<and> 1 \<le> getParameterCount (new_command ''PASS'' [''pw''])
    \<and> getParameters (new_command ''PASS'' [''pw'']) ! 0 = s_password sample_server"
  using password_gate [OF _ _ _ sample_pass, of "new_client 6" "new_client 6"]
  by (simp add: sample_find setPasswordAccepted_def new_client_def)

text \<open>C12: A client that has not registered cannot act on anybody else: whatever command it sends,
  no other client object changes (in particular nothing is queued for it), and every channel keeps
  its members, modes and topic.\<close>

theorem unregistered_isolated:
  assumes "\<not> isRegistered (client_at s fd)" "g \<noteq> fd"
  shows "findClient (dispatchCommand s fd cmd) g = findClient s g
    \<and> om_map room_view (s_channels (dispatchCommand s fd cmd)) = om_map room_view (s_channels s)"
  using assms
  by (simp add: dispatchCommand_def Let_def isolated_register isolated_plain gate rooms_handlers)

theorem unregistered_isolated_witness:
  "findClient (dispatchCommand sample_server 6 (new_command ''PASS'' [''pw''])) 4 = Some (sample_client ''Alice'' 4)"
  using unregistered_isolated [of sample_server 6 4 "new_command ''PASS'' [''pw'']"]
  by (simp add: client_at_def sample_find isRegistered_def)

text \<open>The reply to such a client: each of the six channel and message commands is answered with 451.\<close>

lemma registration_gate:
  assumes "\<not> isRegistered (client_at s fd)" "getCommandName cmd \<in> channel_commands"
  shows "dispatchCommand s fd cmd = send_numeric s fd ''451'' '':You have not registered''"
  using assms(2) unfolding channel_commands_def
  by (auto simp: dispatchCommand_def Let_def gate [OF assms(1)])

section \<open>Properties: operator rights\<close>

text \<open>C4: Only an operator of a channel can change its modes, give or take operator rights in it,
  remove a member from it, bring in somebody else, destroy it, or change its topic while that is
  protected: for a client without operator rights in the channel, whatever command it sends, the
  channel stays in the table under its key with the same modes and the same operators, it keeps
  its members, nobody but the client itself is added, and a protected topic stays.\<close>

theorem operator_rights:
  assumes "server_inv s" "findClient s fd = Some c" "om_find (s_channels s) k = Some ch"
    and "\<not> IsMemberOperator ch fd"
  shows "\<exists>ch'. om_find (s_channels (dispatchCommand s fd cmd)) k = Some ch'
    \<and> channel_modes ch' = channel_modes ch
    \<and> (\<forall>g. IsMemberOperator ch' g \<longleftrightarrow> IsMemberOperator ch g)
    \<and> (\<forall>g. hasMember ch g \<longrightarrow> hasMember ch' g)
    \<and> (\<forall>g. hasMember ch' g \<longrightarrow> hasMember ch g \<or> g = fd)
    \<and> (ch_topicRestricted ch \<longrightarrow> ch_topic ch' = ch_topic ch)"
  using dispatch.privilege [OF assms, of cmd] by (simp add: unprivileged_def)

lemma sample_room: "om_find (s_channels sample_server) ''#room'' = Some sample_channel"
  by (simp add: sample_server_def)

lemma sample_room_modes [simp]: "channel_modes sample_channel = (False, False, False, [], False, 0)"
  by (simp add: sample_channel_def new_channel_def channel_modes_def)

lemma sample_room_members:
  "hasMember sample_channel g \<longleftrightarrow> g = 4 \<or> g = 5" "IsMemberOperator sample_channel g \<longleftrightarrow> g = 4"
  by (auto simp: sample_channel_def hasMember_def IsMemberOperator_def new_member_def isOperator_def)

theorem operator_rights_witness:
  "\<exists>ch'. om_find (s_channels (dispatchCommand sample_server 5 (new_command ''MODE'' [''#room'', ''-o'', ''Alice'']))) ''#room'' = Some ch'
    \<and> channel_modes ch' = (False, False, False, [], False, 0) \<and> IsMemberOperator ch' 4"
  using operator_rights [OF sample_inv _ sample_room, of 5 "sample_client ''Bob'' 5"
      "new_command ''MODE'' [''#room'', ''-o'', ''Alice'']"]
  by (auto simp: sample_find sample_room_members)

end
