(* ===== verification/Irc_Channel_Properties.thy ===== *)
theory Irc_Channel_Properties
  imports Irc_Access
begin

text \<open>
  What JOIN, KICK, TOPIC, INVITE and MODE do to the channel table: each command against its
  abstract effect on one channel, with the other channels unchanged (TOPIC, KICK and INVITE for
  every outcome, JOIN of a client that is not a member, MODE for a well-formed request).
\<close>

section \<open>The caller\<close>

lemma caller [simp]:
  assumes "findClient s fd = Some c"
  shows "client_at s fd = c"
  using assms by (simp add: client_at_def)

text \<open>A channel as \<open>findChannel\<close> sees it, after a change under its key.\<close>

definition channel_under :: "server \<Rightarrow> string \<Rightarrow> channel option" where
  "channel_under s key = om_find (s_channels s) key"

lemma channel_under_frame [simp]:
  "channel_under (queue_line s fd l) = channel_under s"
  "channel_under (send_numeric s fd n a) = channel_under s"
  "channel_under (broadcastToChannel s ch m ex) = channel_under s"
  "channel_under (join_replies s fd key) = channel_under s"
  by (simp_all add: channel_under_def fun_eq_iff)

lemma findChannel_under: "findChannel s name = channel_under s (ircCaseFold name)"
  by (simp add: findChannel_def channel_under_def)

lemma channel_under_on [simp]:
  "channel_under (on_channel key f s) = (channel_under s)(key := map_option f (channel_under s key))"
  by (simp add: channel_under_def fun_eq_iff)

lemma two_le: "2 \<le> length xs \<longleftrightarrow> xs \<noteq> [] \<and> length xs \<noteq> Suc 0"
  by (cases xs rule: remdups_adj.cases) auto

section \<open>JOIN\<close>

text \<open>The conditions under which an existing channel admits a client that is not in it.\<close>

definition admits :: "channel \<Rightarrow> client \<Rightarrow> command \<Rightarrow> bool" where
  "admits ch c cmd \<longleftrightarrow>
     (ch_inviteOnly ch \<longrightarrow> isInvited ch (c_nickname c))
     \<and> (ch_hasKey ch \<longrightarrow> 2 \<le> getParameterCount cmd \<and> getParameters cmd ! 1 = ch_key ch)
     \<and> (ch_hasUserLimit ch \<longrightarrow> getMemberCount ch < unat (ch_userLimit ch))"

definition valid_channel_name :: "string \<Rightarrow> bool" where
  "valid_channel_name name \<longleftrightarrow> name \<noteq> [] \<and> (name ! 0 = CHR ''#'' \<or> name ! 0 = CHR ''&'')"

text \<open>C9: JOIN of an existing channel: the client enters, without operator rights and using up its
  invitation, exactly if the channel is not invite-only or has invited it, the supplied key is the
  channel's key if it has one, and the member count is below the limit if it has one. Otherwise
  the channel is as before, and no other channel changes in either case.\<close>

theorem join_existing:
  assumes inv: "server_inv s" and c: "findClient s fd = Some c" "c_registered c"
    and args: "1 \<le> getParameterCount cmd" "name = getParameters cmd ! 0" "valid_channel_name name"
    and ch: "findChannel s name = Some ch" "\<not> hasMember ch fd"
  shows "findChannel (handleJoin s fd cmd) name =
      Some (if admits ch c cmd then removeInvite (c_nickname c) (snd (addMember fd False ch)) else ch)
    \<and> (\<forall>k. k \<noteq> ircCaseFold name \<longrightarrow> om_find (s_channels (handleJoin s fd cmd)) k = om_find (s_channels s) k)"
proof -
  have key: "ch_hasKey ch \<longleftrightarrow> ch_key ch \<noteq> []"
    using channel_inv_found [OF inv ch(1)] by (simp add: channel_inv_def channel_ok_def)
  have "channel_under (handleJoin s fd cmd) = (channel_under s)(ircCaseFold name \<mapsto>
      (if admits ch c cmd then removeInvite (c_nickname c) (snd (addMember fd False ch)) else ch))"
    using c args(1,3) ch key client_fd_found [OF inv c(1)] unfolding args(2)
    by (auto simp: handleJoin_def Let_def admits_def valid_channel_name_def accessor_defs fun_upd_idem
        findChannel_under not_le)
  then show ?thesis
    by (simp add: findChannel_under) (simp add: channel_under_def [symmetric])
qed

theorem join_existing_witness:
  "findChannel (handleJoin sample_server 7 (new_command ''JOIN'' [''#ROOM''])) ''#ROOM'' =
     Some (removeInvite ''Dave'' (snd (addMember 7 False sample_channel)))"
proof -
  have "admits sample_channel (sample_client ''Dave'' 7) (new_command ''JOIN'' [''#ROOM''])"
    by (simp add: admits_def sample_channel_def new_channel_def)
  moreover have "findChannel sample_server ''#ROOM'' = Some sample_channel"
    by (simp add: findChannel_def sample_server_def)
  ultimately show ?thesis
    using join_existing [OF sample_inv, of 7 _ "new_command ''JOIN'' [''#ROOM'']" "''#ROOM''" sample_channel]
    by (simp add: sample_find sample_room_members valid_channel_name_def)
qed

text \<open>C34: JOIN of a channel that does not exist creates it, with the client as its only member and
  operator, no topic and no modes, under the folded name; no other channel changes.\<close>

theorem join_creates:
  assumes "server_inv s" "findClient s fd = Some c" "c_registered c"
    and "1 \<le> getParameterCount cmd" "name = getParameters cmd ! 0" "valid_channel_name name"
    and "findChannel s name = None"
  shows "\<exists>ch. findChannel (handleJoin s fd cmd) name = Some ch
    \<and> ch_name ch = name \<and> ch_topic ch = [] \<and> channel_modes ch = (False, False, False, [], False, 0)
    \<and> (\<forall>g. hasMember ch g \<longleftrightarrow> g = fd) \<and> IsMemberOperator ch fd
    \<and> (\<forall>n. \<not> isInvited ch n)
    \<and> (\<forall>k. k \<noteq> ircCaseFold name \<longrightarrow> om_find (s_channels (handleJoin s fd cmd)) k = om_find (s_channels s) k)"
proof -
  let ?ch = "snd (addMember fd True (new_channel name))"
  have table: "channel_under (handleJoin s fd cmd) = (channel_under s)(ircCaseFold name \<mapsto> ?ch)"
    using assms client_fd_found [OF assms(1,2)]
    by (auto simp: handleJoin_def Let_def valid_channel_name_def findChannel_under accessor_defs)
      (auto simp: channel_under_def fun_eq_iff)
  have "ch_topic ?ch = []" "channel_modes ?ch = (False, False, False, [], False, 0)" "\<not> isInvited ?ch n"
    "\<not> hasMember (new_channel name) g" for n g
    by (simp_all add: addMember_def hasMember_def new_channel_def channel_modes_def isInvited_def)
  moreover have "ch_name ?ch = name"
    by (simp add: new_channel_def)
  ultimately show ?thesis
    using table by (intro exI [of _ ?ch]) (simp add: findChannel_under channel_under_def [symmetric])
qed

theorem join_creates_witness:
  "\<exists>ch. findChannel (handleJoin sample_server 7 (new_command ''JOIN'' [''#new''])) ''#new'' = Some ch
    \<and> IsMemberOperator ch 7"
  using join_creates [OF sample_inv, of 7 _ "new_command ''JOIN'' [''#new'']" "''#new''"]
  by (auto simp: sample_find valid_channel_name_def sample_find_channel)

section \<open>TOPIC\<close>

text \<open>C35: TOPIC changes the table exactly when it should: a registered member that gives a new
  topic, with operator rights if the channel protects its topic, sets the topic of that one
  channel; in every other case, including the query form, no channel changes.\<close>

theorem topic_effect:
  assumes "server_inv s" "findClient s fd = Some c"
  shows "om_find (s_channels (handleTopic s fd cmd)) k =
    (case om_find (s_channels s) k of
       None \<Rightarrow> None
     | Some ch \<Rightarrow>
         if c_registered c \<and> 2 \<le> getParameterCount cmd \<and> k = ircCaseFold (getParameters cmd ! 0)
           \<and> hasMember ch fd \<and> (ch_topicRestricted ch \<longrightarrow> IsMemberOperator ch fd)
         then Some (ch\<lparr>ch_topic := getParameters cmd ! 1\<rparr>) else Some ch)"
proof -
  have fd: "c_fd c = fd"
    by (rule client_fd_found [OF assms])
  show ?thesis
    using assms(2)
    by (auto simp: handleTopic_def Let_def findChannel_def accessor_defs fd two_le split: option.splits)
qed

theorem topic_effect_witness:
  "findChannel (handleTopic sample_server 5 (new_command ''TOPIC'' [''#room'', ''hi''])) ''#room'' =
    Some (sample_channel\<lparr>ch_topic := ''hi''\<rparr>)"
proof -
  have "\<not> ch_topicRestricted sample_channel"
    by (simp add: sample_channel_def new_channel_def)
  then show ?thesis
    using topic_effect [OF sample_inv, of 5 "sample_client ''Bob'' 5" "new_command ''TOPIC'' [''#room'', ''hi'']" "''#room''"]
    by (simp add: sample_find sample_room sample_room_members findChannel_def)
qed

section \<open>KICK\<close>

text \<open>When a KICK takes effect, and on whom.\<close>

definition kick_target :: "server \<Rightarrow> descriptor \<Rightarrow> command \<Rightarrow> string \<Rightarrow> descriptor option" where
  "kick_target s fd cmd k =
     (case om_find (s_channels s) k of
        None \<Rightarrow> None
      | Some ch \<Rightarrow>
          if isRegistered (client_at s fd) \<and> 2 \<le> getParameterCount cmd
            \<and> k = ircCaseFold (getParameters cmd ! 0) \<and> IsMemberOperator ch fd
          then (case om_find (s_nicknameIndex s) (ircCaseFold (getParameters cmd ! 1)) of
                  None \<Rightarrow> None
                | Some target \<Rightarrow> if hasMember ch target then Some target else None)
          else None)"

lemma index_client:
  assumes inv: "server_inv s" and fd: "om_find (s_nicknameIndex s) (ircCaseFold n) = Some fd"
  shows "\<exists>c. findClientByNickname s n = Some c \<and> c_fd c = fd \<and> findClient s fd = Some c"
proof -
  obtain c where c: "findClient s fd = Some c"
    using inv fd unfolding server_inv_def index_ok_def by blast
  with fd client_fd_found [OF inv c] show ?thesis
    by (simp add: findClientByNickname_def)
qed

lemma index_no_client:
  "om_find (s_nicknameIndex s) (ircCaseFold n) = None \<Longrightarrow> findClientByNickname s n = None"
  by (simp add: findClientByNickname_def)

lemma removeMember_table:
  assumes inv: "server_inv s" and ch: "om_find (s_channels s) key = Some ch"
  shows "channel_under (removeMemberFromChannel s (Some key) fd) =
    (channel_under s)(key := (if channel_empty (removeMember fd ch) then None else Some (removeMember fd ch)))"
proof -
  have "ircCaseFold (ch_name ch) = key"
    using inv ch by (simp add: server_inv_def channels_ok_def channel_inv_def)
  then show ?thesis
    using ch by (auto simp: removeMemberFromChannel_def Let_def channel_at_def getName_def channel_under_def fun_eq_iff)
qed

lemma nickname_fd:
  assumes "server_inv s"
  shows "om_find (s_nicknameIndex s) (ircCaseFold n) = map_option c_fd (findClientByNickname s n)"
  using index_client [OF assms, of n] index_no_client [of s n]
  by (cases "om_find (s_nicknameIndex s) (ircCaseFold n)") auto

lemma kick_cases:
  assumes inv: "server_inv s" and c: "findClient s fd = Some c"
  shows "case kick_target s fd cmd (ircCaseFold (getParameters cmd ! 0)) of
      None \<Rightarrow> s_channels (handleKick s fd cmd) = s_channels s
    | Some target \<Rightarrow> \<exists>ch m. om_find (s_channels s) (ircCaseFold (getParameters cmd ! 0)) = Some ch
        \<and> handleKick s fd cmd = removeMemberFromChannel (broadcastToChannel s ch m no_exclusion)
            (Some (ircCaseFold (getParameters cmd ! 0))) target"
proof (cases "c_registered c \<and> 2 \<le> getParameterCount cmd")
  case False
  with c show ?thesis
    by (auto simp: kick_target_def handleKick_def Let_def isRegistered_def split: option.split)
next
  case True
  let ?name = "getParameters cmd ! 0" and ?nick = "getParameters cmd ! 1"
  have fd: "getFd c = fd" "isRegistered c" "\<not> getParameterCount cmd < 2"
    using client_fd_found [OF inv c] True by (simp_all add: accessor_defs)
  show ?thesis
  proof (cases "findChannel s ?name")
    case None
    then show ?thesis
      by (simp add: kick_target_def handleKick_def Let_def findChannel_def)
  next
    case (Some ch)
    show ?thesis
    proof (cases "IsMemberOperator ch fd")
      case False
      then show ?thesis
        using Some c fd by (simp add: kick_target_def handleKick_def Let_def findChannel_def)
    next
      case op: True
      then show ?thesis
        using Some c fd True op_hasMember [OF op]
        by (cases "findClientByNickname s ?nick")
          (auto simp: kick_target_def handleKick_def Let_def findChannel_def nickname_fd [OF inv] getFd_def)
    qed
  qed
qed

text \<open>C11: KICK by an operator removes the named member from that channel, and with the last member
  the channel itself; every other membership is kept, and a KICK without the rights, for an unknown
  channel, or for somebody who is not in the channel changes no channel.\<close>

theorem kick_effect:
  assumes inv: "server_inv s" and c: "findClient s fd = Some c"
  shows "om_find (s_channels (handleKick s fd cmd)) k =
    (case om_find (s_channels s) k of
       None \<Rightarrow> None
     | Some ch \<Rightarrow>
         (case kick_target s fd cmd k of
            None \<Rightarrow> Some ch
          | Some target \<Rightarrow>
              if \<forall>g. hasMember ch g \<longrightarrow> g = target then None else Some (removeMember target ch)))"
proof -
  let ?key = "ircCaseFold (getParameters cmd ! 0)"
  have other: "kick_target s fd cmd k = None" if "k \<noteq> ?key"
    using that by (simp add: kick_target_def split: option.split)
  have empty: "channel_empty (removeMember t ch) \<longleftrightarrow> (\<forall>g. hasMember ch g \<longrightarrow> g = t)" for t ch
    by (auto simp: channel_empty_iff)
  show ?thesis
  proof (cases "kick_target s fd cmd ?key")
    case None
    with other have "kick_target s fd cmd k = None"
      by (cases "k = ?key") simp_all
    then show ?thesis
      using kick_cases [OF inv c, of cmd] None by (simp split: option.split)
  next
    case (Some target)
    then obtain ch m where ch: "om_find (s_channels s) ?key = Some ch"
      and kick: "handleKick s fd cmd = removeMemberFromChannel (broadcastToChannel s ch m no_exclusion) (Some ?key) target"
      using kick_cases [OF inv c, of cmd] by auto
    have "channel_under (handleKick s fd cmd) = (channel_under s)(?key :=
        (if channel_empty (removeMember target ch) then None else Some (removeMember target ch)))"
      using removeMember_table [of "broadcastToChannel s ch m no_exclusion" ?key ch target] inv ch kick by simp
    then show ?thesis
      using ch Some other by (cases "k = ?key") (simp_all add: channel_under_def [symmetric] empty split: option.split)
  qed
qed

theorem kick_effect_witness:
  "findChannel (handleKick sample_server 4 (new_command ''KICK'' [''#room'', ''Bob''])) ''#room'' =
    Some (removeMember 5 sample_channel)"
proof -
  have "kick_target sample_server 4 (new_command ''KICK'' [''#room'', ''Bob'']) ''#room'' = Some 5"
    by (simp add: kick_target_def sample_room sample_room_members sample_index sample_find isRegistered_def)
  then show ?thesis
    using kick_effect [OF sample_inv, of 4 "sample_client ''Alice'' 4" "new_command ''KICK'' [''#room'', ''Bob'']" "''#room''"]
    by (simp add: sample_find sample_room sample_room_members findChannel_def)
qed

section \<open>INVITE\<close>

text \<open>C36: INVITE records the invitation of an existing nickname that is not in the channel, in that
  channel only, when a registered operator of the channel asks for it, and changes no channel in
  any other case.\<close>

theorem invite_effect:
  assumes inv: "server_inv s" and c: "findClient s fd = Some c"
  shows "om_find (s_channels (handleInvite s fd cmd)) k =
    (case om_find (s_channels s) k of
       None \<Rightarrow> None
     | Some ch \<Rightarrow>
         if c_registered c \<and> 2 \<le> getParameterCount cmd \<and> k = ircCaseFold (getParameters cmd ! 1)
           \<and> IsMemberOperator ch fd
           \<and> (\<exists>target. om_find (s_nicknameIndex s) (ircCaseFold (getParameters cmd ! 0)) = Some target
                \<and> \<not> hasMember ch target)
         then Some (addInvite (getParameters cmd ! 0) ch) else Some ch)"
proof (cases "findClientByNickname s (getParameters cmd ! 0)")
  case None
  with c show ?thesis
    by (simp add: handleInvite_def Let_def nickname_fd [OF inv] split: option.split)
next
  case (Some target)
  have fd: "getFd c = fd" "isRegistered c = c_registered c"
    using client_fd_found [OF inv c] by (simp_all add: accessor_defs)
  show ?thesis
  proof (cases "findChannel s (getParameters cmd ! 1)")
    case None
    then show ?thesis
      using c Some by (auto simp: handleInvite_def Let_def findChannel_def split: option.split)
  next
    case ch: (Some ch)
    then show ?thesis
      using c Some fd op_hasMember [of ch fd]
      by (auto simp: handleInvite_def Let_def findChannel_def nickname_fd [OF inv] getFd_def [of target] not_less
          split: option.split)
  qed
qed

theorem invite_effect_witness:
  "findChannel (handleInvite sample_server 4 (new_command ''INVITE'' [''Dave'', ''#room''])) ''#room'' =
    Some (addInvite ''Dave'' sample_channel)"
  using invite_effect [OF sample_inv, of 4 "sample_client ''Alice'' 4" "new_command ''INVITE'' [''Dave'', ''#room'']" "''#room''"]
  by (simp add: sample_find sample_room sample_room_members sample_index findChannel_def)

section \<open>MODE\<close>

text \<open>The abstract effect of one mode change on the channel, given the nickname index.\<close>

definition mode_effect :: "(string \<Rightarrow> descriptor option) \<Rightarrow> mode_change \<Rightarrow> channel \<Rightarrow> channel" where
  "mode_effect index change ch =
     (let adding = mc_adding change; argument = mc_argument change in
      if mc_mode change = CHR ''i'' then ch\<lparr>ch_inviteOnly := adding\<rparr>
      else if mc_mode change = CHR ''t'' then ch\<lparr>ch_topicRestricted := adding\<rparr>
      else if mc_mode change = CHR ''k'' then
        if \<not> adding then ch\<lparr>ch_hasKey := False, ch_key := []\<rparr>
        else if argument = [] then ch
        else ch\<lparr>ch_hasKey := True, ch_key := argument\<rparr>
      else if mc_mode change = CHR ''o'' then
        (case index (ircCaseFold argument) of
           None \<Rightarrow> ch
         | Some fd \<Rightarrow> snd (setMemberOperator fd adding ch))
      else if mc_mode change = CHR ''l'' then
        if \<not> adding then ch\<lparr>ch_hasUserLimit := False, ch_userLimit := 0\<rparr>
        else (case parsePositiveUserLimit argument of
                None \<Rightarrow> ch
              | Some limit \<Rightarrow> ch\<lparr>ch_hasUserLimit := True, ch_userLimit := limit\<rparr>)
      else ch)"

lemma om_update_same:
  "\<lbrakk>om_ok m; \<And>v. om_find m k = Some v \<Longrightarrow> f v = v\<rbrakk> \<Longrightarrow> om_update k f m = m"
  by (rule om_eqI) (simp_all add: om_update_idem)

lemma setMemberOperator_same:
  assumes "channel_ok ch" "hasMember ch fd" "IsMemberOperator ch fd = b"
  shows "snd (setMemberOperator fd b ch) = ch"
proof -
  obtain m where m: "om_find (ch_members ch) fd = Some m"
    using assms(2) by (auto simp: hasMember_def)
  then have "setOperator b m = m"
    using assms(3) by (cases m) (simp add: IsMemberOperator_def accessor_defs)
  then have "om_update fd (setOperator b) (ch_members ch) = ch_members ch"
    using assms(1) m by (intro om_update_same) (auto simp: channel_ok_def)
  then show ?thesis
    using m by (simp add: setMemberOperator_def)
qed

lemma setMemberOperator_absent: "\<not> hasMember ch fd \<Longrightarrow> snd (setMemberOperator fd b ch) = ch"
  by (simp add: setMemberOperator_def hasMember_def)

lemma effect_flags:
  assumes ch: "om_find (s_channels s) key = Some ch"
  shows "om_find (s_channels (applyInviteOnlyMode s fd key change)) key = Some (ch\<lparr>ch_inviteOnly := mc_adding change\<rparr>)"
    "om_find (s_channels (applyTopicRestrictedMode s fd key change)) key = Some (ch\<lparr>ch_topicRestricted := mc_adding change\<rparr>)"
  using ch by (auto simp: applyInviteOnlyMode_def applyTopicRestrictedMode_def channel_at_def accessor_defs)

lemma effect_key:
  assumes ch: "om_find (s_channels s) key = Some ch" "channel_ok ch"
  shows "om_find (s_channels (applyKeyMode s fd key change)) key =
    Some (if \<not> mc_adding change then ch\<lparr>ch_hasKey := False, ch_key := []\<rparr>
          else if mc_argument change = [] then ch
          else ch\<lparr>ch_hasKey := True, ch_key := mc_argument change\<rparr>)"
proof -
  have "ch\<lparr>ch_hasKey := False, ch_key := []\<rparr> = ch" if "\<not> ch_hasKey ch"
    using that ch(2) by (cases ch) (simp add: channel_ok_def)
  moreover have "ch\<lparr>ch_hasKey := True, ch_key := ch_key ch\<rparr> = ch" if "ch_hasKey ch"
    using that by (cases ch) simp
  ultimately show ?thesis
    using ch(1) by (auto simp: applyKeyMode_def Let_def channel_at_def accessor_defs)
qed

lemma effect_limit:
  assumes ch: "om_find (s_channels s) key = Some ch" "channel_ok ch"
  shows "om_find (s_channels (applyUserLimitMode s fd key change)) key =
    Some (if \<not> mc_adding change then ch\<lparr>ch_hasUserLimit := False, ch_userLimit := 0\<rparr>
          else (case parsePositiveUserLimit (mc_argument change) of
                  None \<Rightarrow> ch
                | Some limit \<Rightarrow> ch\<lparr>ch_hasUserLimit := True, ch_userLimit := limit\<rparr>))"
proof -
  have "ch\<lparr>ch_hasUserLimit := False, ch_userLimit := 0\<rparr> = ch" if "\<not> ch_hasUserLimit ch"
    using that ch(2) by (cases ch) (simp add: channel_ok_def)
  moreover have "ch\<lparr>ch_hasUserLimit := True, ch_userLimit := ch_userLimit ch\<rparr> = ch" if "ch_hasUserLimit ch"
    using that by (cases ch) simp
  ultimately show ?thesis
    using ch(1) by (auto simp: applyUserLimitMode_def Let_def channel_at_def accessor_defs split: option.split)
qed

lemma effect_operator:
  assumes inv: "server_inv s" and ch: "om_find (s_channels s) key = Some ch" "channel_ok ch"
  shows "om_find (s_channels (applyOperatorMode s fd key change)) key =
    Some (case om_find (s_nicknameIndex s) (ircCaseFold (mc_argument change)) of
            None \<Rightarrow> ch
          | Some g \<Rightarrow> snd (setMemberOperator g (mc_adding change) ch))"
  using ch
  by (simp add: applyOperatorMode_def Let_def channel_at_def getFd_def nickname_fd [OF inv]
      setMemberOperator_same setMemberOperator_absent split: option.split)

lemma mode_effect_step:
  assumes "server_inv s" "om_find (s_channels s) key = Some ch"
  shows "om_find (s_channels (applyChannelModeChange s fd key change)) key =
    Some (mode_effect (om_find (s_nicknameIndex s)) change ch)"
proof -
  have "channel_ok ch"
    using assms by (simp add: server_inv_def channels_ok_def channel_inv_def)
  with assms show ?thesis
    by (simp add: applyChannelModeChange_def mode_effect_def Let_def effect_flags effect_key effect_limit
        effect_operator)
qed

lemma mode_effect_fold:
  "\<lbrakk>server_inv s; om_find (s_channels s) key = Some ch\<rbrakk> \<Longrightarrow>
   om_find (s_channels (apply_changes s fd key cs)) key =
     Some (fold (mode_effect (om_find (s_nicknameIndex s))) cs ch)"
proof (induction s fd key cs arbitrary: ch rule: apply_changes.induct)
  case (2 s fd key change changes)
  then show ?case
    using modes.inv [of s fd key change] mode_effect_step [of s key ch fd change]
    by (simp add: modes.index)
qed simp

text \<open>C10: MODE refines its abstract effect: when an operator sends a well-formed mode string for an
  existing channel, the changes are applied from left to right, each as \<open>mode_effect\<close> says
  (an unknown mode, an empty key, an unusable limit and a nickname that is unknown or not in the
  channel have no effect), and no other channel changes.\<close>

theorem mode_refinement:
  assumes inv: "server_inv s" and c: "findClient s fd = Some c" "c_registered c"
    and target: "2 \<le> getParameterCount cmd" "target = getParameters cmd ! 0" "isChannelTarget target"
    and ch: "findChannel s target = Some ch" "IsMemberOperator ch fd"
    and changes: "parseChannelModeChanges (getParameters cmd) = Some changes"
  shows "findChannel (handleMode s fd cmd) target =
      Some (fold (mode_effect (om_find (s_nicknameIndex s))) changes ch)
    \<and> (\<forall>k. k \<noteq> ircCaseFold target \<longrightarrow> om_find (s_channels (handleMode s fd cmd)) k = om_find (s_channels s) k)"
proof -
  have fd: "getFd c = fd" "isRegistered c"
    using client_fd_found [OF inv c(1)] c(2) by (simp_all add: accessor_defs)
  have "getParameters cmd \<noteq> []" "length (getParameters cmd) \<noteq> 1"
    using target(1) by (auto simp: accessor_defs)
  then have "handleMode s fd cmd = apply_changes s fd (ircCaseFold target) changes"
    using assms fd by (simp add: handleMode_def Let_def)
  then show ?thesis
    using mode_effect_fold [OF inv] ch(1) modes.fold_others
    by (auto simp: findChannel_def apply_changes_fold [symmetric])
qed

theorem mode_refinement_witness:
  "findChannel (handleMode sample_server 4 (new_command ''MODE'' [''#room'', ''+i-o'', ''Bob''])) ''#room'' =
    Some (snd (setMemberOperator 5 False (sample_channel\<lparr>ch_inviteOnly := True\<rparr>)))"
proof -
  let ?changes = "[new_mode_change True (CHR ''i''),
    \<lparr>mc_adding = False, mc_mode = CHR ''o'', mc_hasArgument = True, mc_argument = ''Bob''\<rparr>]"
  have "parseChannelModeChanges [''#room'', ''+i-o'', ''Bob''] = Some ?changes"
    by (simp add: parseChannelModeChanges_def modeNeedsArgument_def new_mode_change_def)
  moreover have "fold (mode_effect (om_find (s_nicknameIndex sample_server))) ?changes sample_channel =
      snd (setMemberOperator 5 False (sample_channel\<lparr>ch_inviteOnly := True\<rparr>))"
    by (simp add: mode_effect_def new_mode_change_def sample_index)
  ultimately show ?thesis
    using mode_refinement [OF sample_inv, of 4 "sample_client ''Alice'' 4"
        "new_command ''MODE'' [''#room'', ''+i-o'', ''Bob'']" "''#room''" sample_channel ?changes]
    by (simp add: sample_find sample_room_members sample_find_channel isChannelTarget_def)
qed

text \<open>
  A MODE that asks for a channel's modes changes nothing and is not answered (the comment above
  \<open>handleMode\<close> promises a reply).
\<close>

lemma mode_query_silent:
  assumes "findClient s fd = Some c" "c_registered c" "getParameters cmd = [target]"
    and "isChannelTarget target" "findChannel s target = Some ch"
  shows "handleMode s fd cmd = s"
  using assms by (simp add: handleMode_def Let_def isRegistered_def)

end
