(* ===== verification/Irc_Delivery.thy ===== *)
theory Irc_Delivery
  imports Irc_Access
begin

text \<open>
  Who receives what: the recipients of PRIVMSG, NICK, KICK and QUIT messages, the output queue of one
  client and its transmission. \<open>deliver\<close> is what one queued line does to a client.
\<close>

section \<open>PRIVMSG\<close>

definition privmsg_line :: "client \<Rightarrow> string \<Rightarrow> string \<Rightarrow> string" where
  "privmsg_line c target text = '':'' @ getPrefix c @ '' PRIVMSG '' @ target @ '' :'' @ text"

text \<open>C13: A PRIVMSG to a channel by one of its members reaches every other member exactly once, and
  neither the sender nor anybody outside the channel.\<close>

theorem privmsg_channel:
  assumes inv: "server_inv s" and c: "findClient s fd = Some c" "c_registered c"
    and args: "getParameters cmd = target # text # rest" "channel_prefix target"
    and ch: "findChannel s target = Some ch" "hasMember ch fd"
  shows "findClient (handlePrivmsg s fd cmd) g =
    (if hasMember ch g \<and> g \<noteq> fd then map_option (deliver (privmsg_line c target text)) (findClient s g)
     else findClient s g)"
proof -
  have "om_ok (ch_members ch)"
    using channel_inv_found [OF inv ch(1)] by (simp add: channel_inv_def channel_ok_def)
  moreover have "getFd c = fd"
    using client_fd_found [OF inv c(1)] by (simp add: getFd_def)
  ultimately show ?thesis
    using c args ch
    by (simp add: handlePrivmsg_def Let_def isRegistered_def client_at_def findClient_broadcast privmsg_line_def)
qed

theorem privmsg_channel_witness:
  "findClient (handlePrivmsg sample_server 4 (new_command ''PRIVMSG'' [''#room'', ''hi''])) 5 =
    Some (deliver '':Alice!u@localhost PRIVMSG #room :hi'' (sample_client ''Bob'' 5))"
  using privmsg_channel [OF sample_inv, of 4 "sample_client ''Alice'' 4"
      "new_command ''PRIVMSG'' [''#room'', ''hi'']" "''#room''" "''hi''" "[]" sample_channel 5]
  by (simp add: sample_find sample_room_members sample_find_channel channel_prefix_def char_at_def
      privmsg_line_def getPrefix_def)

text \<open>C37: A PRIVMSG to a nickname reaches exactly the client that owns that nickname, whatever the
  case it is written in, under the owner's own spelling, and no other client is affected.\<close>

theorem privmsg_nickname:
  assumes inv: "server_inv s" and c: "findClient s fd = Some c" "c_registered c"
    and args: "getParameters cmd = target # text # rest" "\<not> channel_prefix target"
    and d: "findClient s g = Some d" "ircEquals (c_nickname d) target" "c_nickname d \<noteq> []"
  shows "findClient (handlePrivmsg s fd cmd) h =
    (if h = g then Some (deliver (privmsg_line c (c_nickname d) text) d) else findClient s h)"
proof -
  have "om_find (s_nicknameIndex s) (ircCaseFold target) = Some g"
    using nickname_owner [OF inv d(1,3)] d(2) by (simp add: ircEquals_def)
  then have "findClientByNickname s target = Some d"
    using d(1) by (simp add: findClientByNickname_def)
  then show ?thesis
    using c args d client_fd_found [OF inv d(1)]
    by (simp add: handlePrivmsg_def Let_def client_at_def findClient_queueLine privmsg_line_def accessor_defs)
qed

theorem privmsg_nickname_witness:
  "findClient (handlePrivmsg sample_server 4 (new_command ''PRIVMSG'' [''bob'', ''hi''])) 5 =
    Some (deliver '':Alice!u@localhost PRIVMSG Bob :hi'' (sample_client ''Bob'' 5))"
  using privmsg_nickname [OF sample_inv, of 4 "sample_client ''Alice'' 4"
      "new_command ''PRIVMSG'' [''bob'', ''hi'']" "''bob''" "''hi''" "[]" 5 "sample_client ''Bob'' 5" 5]
  by (simp add: sample_find channel_prefix_def char_at_def privmsg_line_def getPrefix_def ircEquals_def)

section \<open>NICK\<close>

definition nick_line :: "client \<Rightarrow> string \<Rightarrow> string" where
  "nick_line c nickname = '':'' @ getPrefix c @ '' NICK :'' @ nickname"

lemma tryComplete_registered: "isRegistered (client_at s fd) \<Longrightarrow> tryCompleteRegistration s fd = s"
  by (simp add: tryCompleteRegistration_def)

text \<open>C14: A registered client that changes to a free, valid nickname gets it, and the announcement,
  under its old prefix, reaches itself and every client that shares a channel with it exactly
  once, however many channels they share, and nobody else.\<close>

theorem nick_change:
  assumes inv: "server_inv s" and c: "findClient s fd = Some c" "c_registered c"
    and args: "getParameters cmd = n # rest" "isValidNickname n" "n \<noteq> c_nickname c"
    and free: "om_find (s_nicknameIndex s) (ircCaseFold n) \<in> {None, Some fd}"
  shows "findClient (handleNick s fd cmd) g =
    (if g = fd then Some (deliver (nick_line c n) (setNickname n c))
     else if peers s fd g then map_option (deliver (nick_line c n)) (findClient s g)
     else findClient s g)"
proof -
  let ?r = "nick_recipients fd (s_channels s) (os_insert fd [])" and ?t = "change_nickname s fd n"
  have nick: "hasNickname c" "isRegistered c" "getFd c = fd"
    using inv c client_fd_found [OF inv c(1)]
    by (auto simp: server_inv_def clients_ok_def accessor_defs)
  have r: "distinct (om_keys ?r)" "os_mem ?r h \<longleftrightarrow> h = fd \<or> peers s fd h" for h
    by (rule om_ok_distinct [OF nick_recipients_ok], simp)
      (auto simp: nick_recipients_keys peers_def)
  have t: "findClient ?t h = (if h = fd then Some (setNickname n c) else findClient s h)" for h
    by (rule findClient_change_nickname [OF c(1)])
  have q: "findClient (queue_to_each ?r (nick_line c n) ?t) h =
    (if h = fd \<or> peers s fd h then map_option (deliver (nick_line c n)) (findClient ?t h) else findClient ?t h)" for h
    by (simp only: findClient_queue_to_each [OF r(1)] r(2))
  have "handleNick s fd cmd = tryCompleteRegistration (queue_to_each ?r (nick_line c n) ?t) fd"
    using c args free nick
    by (auto simp: handleNick_def Let_def client_at_def nick_line_def getParameterCount_def getParameters_def
        getNickname_def)
  also have "\<dots> = queue_to_each ?r (nick_line c n) ?t"
    by (rule tryComplete_registered) (use q [of fd] t [of fd] c(2) in
        \<open>simp add: client_at_def deliver_def accessor_defs\<close>)
  finally show ?thesis
    using q [of g] t [of g] by auto
qed

lemma sample_peers: "peers sample_server 4 g \<longleftrightarrow> g = 4 \<or> g = 5"
  by (simp add: peers_def sample_server_def sample_room_members)

theorem nick_change_witness:
  "findClient (handleNick sample_server 4 (new_command ''NICK'' [''Al''])) 5 =
    Some (deliver '':Alice!u@localhost NICK :Al'' (sample_client ''Bob'' 5))"
proof -
  have "ircCaseFold ''Al'' = ''al''"
    by code_simp
  then show ?thesis
    using nick_change [OF sample_inv, of 4 "sample_client ''Alice'' 4" "new_command ''NICK'' [''Al'']" "''Al''" "[]" 5]
    by (simp add: sample_find sample_peers sample_index isValidNickname_def nick_line_def getPrefix_def)
qed

text \<open>C38: A NICK that is refused (no parameter, an invalid nickname, or a nickname that another client
  holds in any spelling) only queues the error for the sender: the nickname index, the channels and
  every other client stay as they are, and so does the sender's nickname.\<close>

theorem nick_refused:
  assumes c: "findClient s fd = Some c"
    and refused: "getParameters cmd = [] \<or> \<not> isValidNickname (hd (getParameters cmd))
      \<or> (\<exists>owner. om_find (s_nicknameIndex s) (ircCaseFold (hd (getParameters cmd))) = Some owner \<and> owner \<noteq> c_fd c)"
  shows "\<exists>reply. s_nicknameIndex (handleNick s fd cmd) = s_nicknameIndex s
    \<and> s_channels (handleNick s fd cmd) = s_channels s
    \<and> (\<forall>g. findClient (handleNick s fd cmd) g = (if g = fd then Some (deliver reply c) else findClient s g))"
proof -
  obtain numeric arguments where h: "handleNick s fd cmd = send_numeric s fd numeric arguments"
  proof (cases "getParameters cmd")
    case Nil
    then have "handleNick s fd cmd = send_numeric s fd ''431'' '':No nickname given''"
      by (simp add: handleNick_def getParameterCount_def getParameters_def)
    then show ?thesis by (rule that)
  next
    case (Cons n ps)
    then have "handleNick s fd cmd = send_numeric s fd ''432'' (n @ '' :Erroneous nickname'')
        \<or> handleNick s fd cmd = send_numeric s fd ''433'' (n @ '' :Nickname is already in use'')"
      using c refused
      by (auto simp: handleNick_def Let_def getParameterCount_def getParameters_def client_at_def getFd_def)
    then show ?thesis using that by blast
  qed
  have "\<exists>reply. \<forall>g. findClient (send_numeric s fd numeric arguments) g =
      (if g = fd then Some (deliver reply c) else findClient s g)"
    using findClient_sendNumeric [OF c, of numeric arguments] by blast
  then show ?thesis
    unfolding h by simp
qed

theorem nick_refused_witness:
  "s_nicknameIndex (handleNick sample_server 4 (new_command ''NICK'' [''bob''])) = s_nicknameIndex sample_server"
  using nick_refused [of sample_server 4 "sample_client ''Alice'' 4" "new_command ''NICK'' [''bob'']"]
  by (auto simp: sample_find sample_index)

section \<open>KICK\<close>

definition kick_line :: "client \<Rightarrow> string \<Rightarrow> string \<Rightarrow> string \<Rightarrow> string" where
  "kick_line c name nick reason = '':'' @ getPrefix c @ '' KICK '' @ name @ '' '' @ nick @ '' :'' @ reason"

lemma findClient_removeMember [simp]: "findClient (removeMemberFromChannel s k fd) = findClient s"
  by (simp add: removeMemberFromChannel_def Let_def split: option.split)

text \<open>No member is excluded from a broadcast by default.\<close>

lemma no_exclusion_member:
  assumes "server_inv s" "findChannel s name = Some ch"
  shows "\<not> hasMember ch no_exclusion"
proof
  assume "hasMember ch no_exclusion"
  then obtain c where "findClient s no_exclusion = Some c"
    using channel_inv_found [OF assms] by (auto simp: channel_inv_def)
  then have "no_exclusion \<in> set (om_keys (s_clients s))"
    by (metis findClient_def om_find_None_iff option.distinct(1))
  moreover have "0 \<le> g" if "g \<in> set (om_keys (s_clients s))" for g
    using assms(1) that by (simp add: server_inv_def fds_ok_def)
  ultimately show False
    by fastforce
qed

text \<open>C15: A KICK that takes effect is announced to the whole channel as it was before, once to each
  member, the kicked member and the operator among them, and to nobody else; the announcement
  gives the operator's prefix and the reason, which is the operator's nickname if none was sent.\<close>

theorem kick_notifies:
  assumes inv: "server_inv s" and c: "findClient s fd = Some c" "c_registered c"
    and args: "getParameters cmd = name # nick # reasons"
    and ch: "findChannel s name = Some ch" "IsMemberOperator ch fd"
    and d: "findClientByNickname s nick = Some d" "hasMember ch (c_fd d)"
  shows "findClient (handleKick s fd cmd) g =
    (if hasMember ch g
     then map_option (deliver (kick_line c name nick (if reasons = [] then c_nickname c else hd reasons))) (findClient s g)
     else findClient s g)"
proof -
  have "om_ok (ch_members ch)"
    using channel_inv_found [OF inv ch(1)] by (simp add: channel_inv_def channel_ok_def)
  moreover note no_exclusion_member [OF inv ch(1)]
  moreover have "getParameterCount cmd = Suc (Suc (length reasons))"
    using args by (simp add: accessor_defs)
  ultimately show ?thesis
    using c args ch d client_fd_found [OF inv c(1)] op_hasMember [OF ch(2)]
    by (cases reasons)
      (auto simp: handleKick_def Let_def client_at_def findClient_broadcast kick_line_def isRegistered_def
        getFd_def getNickname_def)
qed

theorem kick_notifies_witness:
  "findClient (handleKick sample_server 4 (new_command ''KICK'' [''#room'', ''bob'', ''bye''])) 5 =
    Some (deliver '':Alice!u@localhost KICK #room bob :bye'' (sample_client ''Bob'' 5))"
  using kick_notifies [OF sample_inv, of 4 "sample_client ''Alice'' 4"
      "new_command ''KICK'' [''#room'', ''bob'', ''bye'']" "''#room''" "''bob''" "[''bye'']" sample_channel
      "sample_client ''Bob'' 5" 5]
  by (simp add: sample_find sample_room_members sample_find_channel findClientByNickname_def sample_index
      kick_line_def getPrefix_def)

section \<open>QUIT\<close>

text \<open>C16: When a registered client is removed, each client that shares a channel with it receives its
  QUIT line exactly once, and no client outside its channels receives anything; the removed client
  itself is gone.\<close>

theorem quit_notifies_peers:
  assumes "server_inv s" "findClient s (pf_fd (s_pollFds s ! i)) = Some c" "c_registered c"
  shows "findClient (removeClient s i) g =
    (if g = pf_fd (s_pollFds s ! i) then None
     else if peers s (pf_fd (s_pollFds s ! i)) g then map_option (deliver (quit_line c)) (findClient s g)
     else findClient s g)"
  using findClient_removeClient [OF assms(1,2), of g] assms(3) by simp

theorem quit_notifies_peers_witness:
  "findClient (removeClient sample_server 1) 5 =
    Some (deliver '':Alice!u@localhost QUIT :Connection closed'' (sample_client ''Bob'' 5))"
proof -
  have "pf_fd (s_pollFds sample_server ! 1) = 4"
    by (simp add: sample_server_def sample_poll_def)
  moreover have "getDisconnectReason (sample_client ''Alice'' 4) = []"
    by (simp add: sample_client_def new_client_def accessor_defs)
  ultimately show ?thesis
    using quit_notifies_peers [OF sample_inv, of 1 "sample_client ''Alice'' 4" 5]
    by (simp add: sample_find sample_peers quit_line_def getPrefix_def)
qed

section \<open>One output queue\<close>

text \<open>C30: Queueing a line for a client: a client that is leaving gets nothing; a line that would take
  the buffer beyond the limit is dropped whole and disconnects the client; any other line is
  appended whole with its line end, and the call reports which of the two happened. No other client
  changes, and the buffer never exceeds the limit.\<close>

theorem queue_line_outcome:
  assumes c: "findClient s fd = Some c" and room: "length (c_outputBuffer c) \<le> MAX_PENDING_OUTPUT"
  shows "\<exists>d. findClient (snd (queueLine s fd line)) fd = Some d
    \<and> length (c_outputBuffer d) \<le> MAX_PENDING_OUTPUT
    \<and> (if c_disconnectRequested c then d = c \<and> \<not> fst (queueLine s fd line)
       else if MAX_PENDING_OUTPUT < length (c_outputBuffer c) + length line + 2
       then d = c\<lparr>c_disconnectRequested := True, c_disconnectReason := ''Exceeded Client OutputBuffer''\<rparr>
         \<and> \<not> fst (queueLine s fd line)
       else d = c\<lparr>c_outputBuffer := c_outputBuffer c @ line @ crlf\<rparr> \<and> fst (queueLine s fd line))
    \<and> (\<forall>g. g \<noteq> fd \<longrightarrow> findClient (snd (queueLine s fd line)) g = findClient s g)"
proof -
  have "findClient (snd (queueLine s fd line)) fd = Some (deliver line c)"
    using c by (simp add: findClient_queueLine)
  moreover have "fst (queueLine s fd line) \<longleftrightarrow>
      \<not> c_disconnectRequested c \<and> length (c_outputBuffer c) + length line + 2 \<le> MAX_PENDING_OUTPUT"
    using c by (auto simp: queueLine_def queueRaw_def Let_def client_at_def accessor_defs)
  ultimately show ?thesis
    using room by (auto simp: deliver_def accessor_defs)
qed

theorem queue_line_outcome_witness:
  "fst (queueLine sample_server 4 ''hi'')
    \<and> findClient (snd (queueLine sample_server 4 ''hi'')) 4 = Some ((sample_client ''Alice'' 4)\<lparr>c_outputBuffer := ''hi'' @ crlf\<rparr>)"
  using queue_line_outcome [of sample_server 4 "sample_client ''Alice'' 4" "''hi''"]
  by (simp add: sample_find MAX_PENDING_OUTPUT_def)

section \<open>Transmission\<close>

text \<open>C31: A flush neither loses, repeats nor reorders bytes: what \<open>send\<close> took is exactly the front
  of the buffer and the rest stays, \<open>POLLOUT\<close> stays set while something is left, and a
  \<open>send\<close> that fails leaves the buffer and marks the client for removal.\<close>

theorem flush_sends_prefix:
  assumes c: "findClient s fd = Some c" and fd: "fd = pf_fd (s_pollFds s ! i)"
    and sent: "send fd (c_outputBuffer c) \<le> int (length (c_outputBuffer c))" and pending: "c_outputBuffer c \<noteq> []"
  shows "\<exists>d. findClient (snd (flushClientOutput send s i)) fd = Some d
    \<and> (if send fd (c_outputBuffer c) \<le> 0
       then \<not> fst (flushClientOutput send s i) \<and> c_outputBuffer d = c_outputBuffer c \<and> c_disconnectRequested d
       else fst (flushClientOutput send s i)
         \<and> take (nat (send fd (c_outputBuffer c))) (c_outputBuffer c) @ c_outputBuffer d = c_outputBuffer c
         \<and> (c_outputBuffer d \<noteq> [] \<longrightarrow> s_pollFds (snd (flushClientOutput send s i)) = s_pollFds s))"
proof -
  have find: "findClient (clear_pollout i t) = findClient t" for t
    by (simp add: clear_pollout_def)
  show ?thesis
    using c pending
    by (auto simp: flushClientOutput_def Let_def fd [symmetric] client_at_def accessor_defs consumeOutput_def find)
qed

theorem flush_sends_prefix_witness:
  "\<exists>d. findClient (snd (flushClientOutput (\<lambda>fd data. 1) (on_client 4 (appendOutput ''abc'') sample_server) 1)) 4 = Some d
    \<and> ''a'' @ c_outputBuffer d = ''abc''"
proof -
  let ?s = "on_client 4 (appendOutput ''abc'') sample_server"
  have "findClient ?s 4 = Some (appendOutput ''abc'' (sample_client ''Alice'' 4))"
    by (simp add: sample_find)
  moreover have "4 = pf_fd (s_pollFds ?s ! 1)"
    by (simp add: sample_server_def sample_poll_def)
  ultimately show ?thesis
    using flush_sends_prefix [of ?s 4 "appendOutput ''abc'' (sample_client ''Alice'' 4)" 1 "\<lambda>fd data. 1"]
    by (auto simp: appendOutput_def)
qed

end
