(* ===== verification/Spec2Isabelle.thy ===== *)
theory Spec2Isabelle
  imports Irc_Session Irc_Wire Irc_Channel_Properties Irc_Delivery
begin

text \<open>
  ft_irc, an IRC server in C++98: a verification of its whole protocol and connection logic.

  The program. \<open>main\<close> reads a port and a password and runs a \<open>Server\<close>, which owns the
  listening socket, the clients (\<open>_clients\<close>, by descriptor), the channels (\<open>_channels\<close>, by
  folded name), the index of nicknames (\<open>_nicknameIndex\<close>, folded nickname to descriptor) and the
  \<open>poll\<close> list. One \<open>poll\<close> loop accepts connections, reads bytes into the input buffer of a
  client, takes complete lines from it, parses each into a \<open>Command\<close> and dispatches it to a
  handler; handlers change clients and channels and queue reply lines in output buffers, which the
  loop sends when \<open>poll\<close> reports that it can. A client leaves by QUIT, by an error or by
  exceeding a buffer limit, and the server then removes every reference to it.

  The theories, in the order of the code's layers.
  \<^item> \<open>Irc_Prelude\<close>: types, characters and list lemmas; \<open>Ordered_Map\<close>: \<open>std::map\<close> and
    \<open>std::set\<close> as sorted association lists, so that loops visit entries in the order of the C++
    iterators, with the interface \<open>keyed_store\<close>.
  \<^item> \<open>Irc_Utils\<close>: \<open>srcs/Utils.cpp\<close> (RFC 1459 case folding), and the stream extraction of an
    unsigned number that two files use.
  \<^item> \<open>Irc_Client\<close>: \<open>srcs/Client.cpp\<close>, \<open>srcs/ClientRegister.cpp\<close>; \<open>Irc_Channel\<close>:
    \<open>srcs/Channel.cpp\<close>, with the interface \<open>member_table\<close>; \<open>Irc_Command\<close>:
    \<open>srcs/Command/Command.cpp\<close>, with the grammar it is shown to implement.
  \<^item> \<open>Irc_Server\<close>: the state of \<open>Server\<close>, its lookups (\<open>ServerUtils.cpp\<close>) and its
    output queue (\<open>ServerSend.cpp\<close>). \<open>Irc_Output\<close>: what an output operation leaves alone
    (interface \<open>output_op\<close>) and who receives a line.
  \<^item> \<open>Irc_Invariant\<close>: the invariant \<open>server_inv\<close> of the tables, the queue invariant and
    the contract \<open>irc_handler\<close> of a command handler.
  \<^item> \<open>Irc_Register\<close> (CAP, PING, QUIT, PASS, USER, NICK), \<open>Irc_Channel_Commands\<close> (PRIVMSG,
    JOIN, TOPIC, KICK, INVITE), \<open>Irc_Mode\<close> (MODE, with the contract \<open>mode_applier\<close>): the
    handlers under \<open>srcs/Command\<close>, each shown to meet the contract. \<open>Irc_Dispatch\<close>:
    \<open>dispatchCommand\<close> and \<open>handleCompleteLine\<close>.
  \<^item> \<open>Irc_Socket\<close>: \<open>srcs/Server/ServerSocket.cpp\<close> and the clean-up of a leaving client.
    \<open>Irc_Loop\<close>: \<open>Server::run\<close> as a step relation between its program points, with the
    interface \<open>loop_invariant\<close> that turns a property kept by the operations on one connection
    into a property of every reachable state. \<open>Irc_Main\<close>: start, end, \<open>checkPort\<close> and
    \<open>main\<close>. \<open>Irc_Wire\<close>: the second invariant of the loop, about the texts that are stored,
    sent and waiting to be read (interfaces \<open>tidy_handler\<close>, \<open>tidy_applier\<close>).
  \<^item> \<open>Irc_Samples\<close>, \<open>Irc_Session\<close>: a sample server and an evaluated session, for the
    witnesses. \<open>Irc_Access\<close>, \<open>Irc_Channel_Properties\<close>, \<open>Irc_Delivery\<close> and this theory:
    properties that span components.

  How the model relates to the code. Objects are records with the fields of the classes and
  functions have the names of the code's functions. A \<open>Client &\<close> is the descriptor under which
  the object is filed, a \<open>Channel *\<close> its key; a function that changes the server returns the
  changed server, with its boolean result first. A C++ exception is the text of \<open>what()\<close> beside
  the state it leaves. \<open>std::size_t\<close> values that come from outside (a user limit) are 64-bit words,
  ports and poll events 16-bit words; sizes of strings in memory are natural numbers. The field
  \<open>s_openFds\<close> is the part of the process's descriptor table that the server opens and closes;
  it is not in the class and is there to state that no descriptor is leaked or used after
  \<open>close\<close>.

  What is a parameter. The results of the system calls are arguments: the record \<open>kernel\<close> for
  one step of the loop, the record \<open>syscalls\<close> for the start. Two hypotheses about them are
  used: \<open>accept_ok\<close> (\<open>accept\<close> fails or returns a nonnegative descriptor that is not open)
  and \<open>socket_ok\<close> (the same of \<open>socket\<close>, when nothing is open yet). Signals are events that
  may come at any program point. There is no fuel: every loop of a component is a terminating
  function, and the loop of \<open>run\<close>, which is meant to go on, is a relation; that each pass over the
  poll list ends is \<open>scan_terminates\<close>.

  What the properties show. Every reachable state satisfies the invariant (whatever is sent, and
  however the kernel answers), from which nickname uniqueness, the liveness of channel members and
  the absence of stale references follow; nicknames and channel names stay valid, what is
  sent is made of whole lines, and input neither piles up nor waits unhandled; the password and
  registration gates; operator rights; the effect of the channel commands on the channel table (TOPIC, KICK and INVITE in every case; JOIN
  when it creates a channel and when a client that is not a member asks to enter one; MODE for a
  well-formed request of an operator); who receives a PRIVMSG, NICK, KICK or QUIT message; the bound
  of the output, and that \<open>poll\<close> watches a client while output is pending; framing, parsing, case
  folding and the reading of a user limit against their specifications; termination of a round, of the sweep and after a stop request; and
  that \<open>main\<close> closes every descriptor it opened.

  What is not modelled: text printed to the standard streams and the \<open>_debug\<close> prints (the flag
  is false from the constructor on), failure of memory allocation, the size of the buffer given to
  \<open>recv\<close> (the model allows any number of bytes), the contents of \<open>sockaddr_in\<close>, and the
  declared but undefined copy operations.
\<close>

section \<open>Runs of the program\<close>

text \<open>A state that the program can be in after a successful start.\<close>

definition program_state :: "syscalls \<Rightarrow> short_int \<Rightarrow> string \<Rightarrow> process \<Rightarrow> bool" where
  "program_state sy port password p \<longleftrightarrow>
     (\<exists>s. construct_server sy port password = (None, s) \<and> reachable (start_process s) p)"

lemma program_good: "\<lbrakk>socket_ok sy; program_state sy port password p\<rbrakk> \<Longrightarrow> good (p_server p)"
  using good_start by (auto simp: program_state_def)

lemma program_inv: "\<lbrakk>socket_ok sy; program_state sy port password p\<rbrakk> \<Longrightarrow> server_inv (p_server p)"
  using program_good by (simp add: good_def)

lemma program_orderly: "\<lbrakk>socket_ok sy; program_state sy port password p\<rbrakk> \<Longrightarrow> orderly (p_server p)"
proof -
  assume ok: "socket_ok sy" and "program_state sy port password p"
  then obtain s where s: "construct_server sy port password = (None, s)" "reachable (start_process s) p"
    by (auto simp: program_state_def)
  have "s = listening_server (sy_socket sy) password"
    using construct_cases [OF s(1)] by simp
  then have "orderly s"
    using good_construct [OF ok s(1)]
    by (simp add: orderly_def tidy_def input_ok_but_def listening_server_def findClient_def)
  then show ?thesis
    using orderly_loop.reachable [OF s(2)] by (simp add: start_process_def)
qed

text \<open>A start that succeeds, on descriptor 3, and the session of \<open>Irc_Session\<close>.\<close>

definition sample_syscalls :: syscalls where
  "sample_syscalls =
     \<lparr>sy_sigaction_int = 0, sy_sigaction_term = 0, sy_sigaction_pipe = 0, sy_socket = 3,
      sy_setsockopt = 0, sy_fcntl = 0, sy_bind = (\<lambda>port. 0), sy_listen = 0\<rparr>"

lemma sample_construct:
  "socket_ok sample_syscalls"
  "construct_server sample_syscalls port ''pw'' = (None, listening_server 3 ''pw'')"
  by (simp_all add: socket_ok_def construct_server_def installSignalHandlers_def createListeningSocket_def
      sample_syscalls_def listening_server_def empty_server_def addPollFd_def)

lemma session_reachable: "program_state sample_syscalls 6667 ''pw'' (process_at session_end (At_scan 2))"
  unfolding program_state_def
  using sample_construct(2) reachable_run [OF session_events_ok reachable.start] session_run by metis

lemma session_end_sel [simp]:
  "findClient session_end g = (if g = 4 then Some (session_client ''Al'' ''u'' True True [] (greeting_bytes @ join_bytes)) else None)"
  "s_channels session_end = [(''#r'', session_channel)]" "s_listenerFd session_end = 3"
  by (simp_all add: session_end_def) (simp add: session_server_def)

lemma session_client_sel [simp]:
  "c_nickname (session_client n u a r i out) = n" "c_registered (session_client n u a r i out) = r"
  "c_fd (session_client n u a r i out) = 4" "c_outputBuffer (session_client n u a r i out) = out"
  "c_disconnectRequested (session_client n u a r i out) = False"
  by (simp_all add: session_client_def)

section \<open>Properties of every reachable state\<close>

text \<open>C1: In every state that the program can reach, whatever the clients send, however the kernel
  answers and whenever signals come, the tables of the server agree with each other: every client is
  filed under its own descriptor, the nickname index is exactly the folded nicknames of the live
  clients, every channel is filed under its folded name, has a member, and has only live registered
  members and live invitations, and the poll list and the open descriptors are the listener's and
  the clients'.\<close>

theorem reachable_invariant:
  assumes "socket_ok sy" "program_state sy port password p"
  shows "server_inv (p_server p)"
  using program_inv [OF assms] .

theorem reachable_invariant_witness: "server_inv session_end"
  using reachable_invariant [OF sample_construct(1) session_reachable] by simp

text \<open>C6: In every reachable state a client is registered exactly if its password was accepted and it
  has given a nickname and a user name: registration is neither granted early nor forgotten.\<close>

theorem registered_iff_ready:
  assumes "socket_ok sy" "program_state sy port password p" "findClient (p_server p) fd = Some c"
  shows "c_registered c \<longleftrightarrow> c_passwordAccepted c \<and> c_nickname c \<noteq> [] \<and> c_hasUser c"
  using program_good [OF assms(1,2)] assms(3)
  unfolding good_def server_inv_def clients_ok_def complete_def isRegistrationReady_def by blast

theorem registered_iff_ready_witness:
  "c_passwordAccepted (session_client ''Al'' ''u'' True True [] (greeting_bytes @ join_bytes))"
  using registered_iff_ready [OF sample_construct(1) session_reachable, of 4] by simp

text \<open>C7: Nicknames are unique up to case: in every reachable state, looking up any spelling of a
  client's nickname finds that client, and no other client has a nickname equal to it.\<close>

theorem nicknames_unique:
  assumes "socket_ok sy" "program_state sy port password p"
    and "findClient (p_server p) fd = Some c"
    and "c_nickname c \<noteq> []" "ircEquals (c_nickname c) n"
  shows "findClientByNickname (p_server p) n = Some c
    \<and> (\<forall>g d. findClient (p_server p) g = Some d \<longrightarrow> ircEquals (c_nickname d) n \<longrightarrow> g = fd)"
proof -
  note inv = program_inv [OF assms(1,2)]
  have owner: "om_find (s_nicknameIndex (p_server p)) (ircCaseFold n) = Some fd"
    using nickname_owner [OF inv assms(3,4)] assms(5) by (simp add: ircEquals_def)
  have "g = fd" if d: "findClient (p_server p) g = Some d" "ircEquals (c_nickname d) n" for g d
  proof -
    have "c_nickname d \<noteq> []"
      using d(2) assms(4,5) by (metis ircCaseFold_eq_Nil ircEquals_def)
    then show ?thesis
      using nickname_owner [OF inv d(1)] owner d(2) by (simp add: ircEquals_def)
  qed
  then show ?thesis
    using owner assms(3) by (simp add: findClientByNickname_def)
qed

theorem nicknames_unique_witness:
  "findClientByNickname session_end ''Al'' = findClient session_end 4"
  using nicknames_unique [OF sample_construct(1) session_reachable, of 4 _ "''Al''"] by (simp add: ircEquals_def)

text \<open>C2: A channel never refers to a descriptor that is closed or reused: in every reachable state every
  member of every channel is a live, registered client with an open connection, every operator is a
  member, and no channel is empty.\<close>

theorem members_live:
  assumes "socket_ok sy" "program_state sy port password p"
    and ch: "findChannel (p_server p) name = Some ch"
  shows "\<not> channel_empty ch
    \<and> (\<forall>fd. hasMember ch fd \<longrightarrow> fd \<in> set (s_openFds (p_server p))
         \<and> (\<exists>c. findClient (p_server p) fd = Some c \<and> c_registered c))
    \<and> (\<forall>fd. IsMemberOperator ch fd \<longrightarrow> hasMember ch fd)"
proof -
  note inv = program_inv [OF assms(1,2)]
  have "fd \<in> set (s_openFds (p_server p))" if "findClient (p_server p) fd = Some c" for fd c
    using that inv by (auto simp: server_inv_def fds_ok_def findClient_def simp flip: om_find_not_None_iff)
  then show ?thesis
    using channel_inv_found [OF inv ch] op_hasMember unfolding channel_inv_def by blast
qed

theorem members_live_witness:
  "\<not> channel_empty session_channel \<and> 4 \<in> set (s_openFds session_end)"
  using members_live [OF sample_construct(1) session_reachable, of "''#R''" session_channel]
  by (simp add: findChannel_def hasMember_def)

text \<open>C8: Output is bounded and never forgotten: in every reachable state each output buffer holds at
  most \<open>MAX_PENDING_OUTPUT\<close> bytes, and while it holds any, the poll list has an entry of the
  client that asks \<open>poll\<close> to report that it can be written to.\<close>

theorem output_bounded_and_polled:
  assumes "socket_ok sy" "program_state sy port password p" "findClient (p_server p) fd = Some c"
  shows "length (c_outputBuffer c) \<le> MAX_PENDING_OUTPUT
    \<and> (c_outputBuffer c = []
         \<or> (\<exists>e\<in>set (s_pollFds (p_server p)). pf_fd e = fd \<and> pf_events e AND POLLOUT \<noteq> 0))"
proof -
  note good = program_good [OF assms(1,2)] and inv = program_inv [OF assms(1,2)]
  have "fd \<in> set (map pf_fd (s_pollFds (p_server p)))"
    using inv assms(3) unfolding server_inv_def poll_ok_def findClient_def
    by (metis insertCI om_find_None_iff option.distinct(1))
  then show ?thesis
    using good assms(3) output_armed [OF inv _ assms(3)] armed_entry by (auto simp: good_def output_ok_def)
qed

theorem output_bounded_and_polled_witness:
  "\<exists>e\<in>set (s_pollFds session_end). pf_fd e = 4 \<and> pf_events e AND POLLOUT \<noteq> 0"
  using output_bounded_and_polled [OF sample_construct(1) session_reachable, of 4] by (simp add: greeting_bytes_def)

text \<open>C18: Nicknames and channel names stay apart and stay valid: in every reachable state the
  nickname of a client that has one begins with none of the characters that begin a channel name or
  a trailing parameter and contains no space, comma, tab or line end, and the name of every channel
  begins with a channel character, so no message can take one for the other.\<close>

theorem names_valid:
  assumes "socket_ok sy" "program_state sy port password p"
  shows "(\<forall>fd c. findClient (p_server p) fd = Some c \<longrightarrow> c_nickname c \<noteq> [] \<longrightarrow>
        hd (c_nickname c) \<notin> {CHR ''#'', CHR ''&'', CHR '':''}
        \<and> set (c_nickname c) \<inter> {space_char, CHR '','', tab_char, return_char, newline_char} = {})
    \<and> (\<forall>key ch. om_find (s_channels (p_server p)) key = Some ch \<longrightarrow>
        ch_name ch \<noteq> [] \<and> hd (ch_name ch) \<in> {CHR ''#'', CHR ''&''})"
proof -
  have "tidy (p_server p)"
    using program_orderly [OF assms] by (simp add: orderly_def)
  moreover have "hd n \<notin> {CHR ''#'', CHR ''&'', CHR '':''}
      \<and> set n \<inter> {space_char, CHR '','', tab_char, return_char, newline_char} = {}" if "isValidNickname n" for n
    using that by (auto simp: isValidNickname_def hd_conv_nth split: if_splits)
  moreover have "n \<noteq> [] \<and> hd n \<in> {CHR ''#'', CHR ''&''}" if "isChannelTarget n" for n
    using that by (auto simp: isChannelTarget_def hd_conv_nth split: if_splits)
  ultimately show ?thesis
    unfolding tidy_def tidy_client_def tidy_channel_def by blast
qed

theorem names_valid_witness: "hd (ch_name session_channel) \<in> {CHR ''#'', CHR ''&''}"
  using names_valid [OF sample_construct(1) session_reachable] by (auto dest: spec [of _ "''#r''"])

text \<open>C19: Messages stay whole: in every reachable state what waits to be sent to a client is a sequence of
  messages, each ended by a carriage return and a line feed and without a line feed inside (a first
  part of the sequence may have been sent already), and no stored nickname, user name, real name,
  quit reason, channel name, topic or key, from which later messages are built, contains a line
  feed. A carriage return inside a line is kept by the code and not excluded.\<close>

theorem no_line_injection:
  assumes "socket_ok sy" "program_state sy port password p"
  shows "(\<forall>fd c. findClient (p_server p) fd = Some c \<longrightarrow>
        (\<exists>sent ls. sent @ c_outputBuffer c = concat (map (\<lambda>l. l @ crlf) ls) \<and> list_all (\<lambda>l. newline_char \<notin> set l) ls)
        \<and> newline_char \<notin> set (c_nickname c) \<union> set (c_username c) \<union> set (c_realname c) \<union> set (c_disconnectReason c))
    \<and> (\<forall>key ch. om_find (s_channels (p_server p)) key = Some ch \<longrightarrow>
        newline_char \<notin> set (ch_name ch) \<union> set (ch_topic ch) \<union> set (ch_key ch))"
proof -
  have t: "tidy (p_server p)"
    using program_orderly [OF assms] by (simp add: orderly_def)
  have "(\<exists>sent ls. sent @ c_outputBuffer c = concat (map (\<lambda>l. l @ crlf) ls) \<and> list_all (\<lambda>l. newline_char \<notin> set l) ls)
      \<and> newline_char \<notin> set (c_nickname c) \<union> set (c_username c) \<union> set (c_realname c) \<union> set (c_disconnectReason c)"
    if "findClient (p_server p) fd = Some c" for fd c
    using tidy_clientD(1,2) [OF t that]
    by (simp add: tidy_client_def line_buffer_def wire_lines_def clean_def [abs_def])
  then show ?thesis
    using t by (auto simp: tidy_def tidy_channel_def clean_def)
qed

theorem no_line_injection_witness:
  "\<exists>sent ls. sent @ greeting_bytes @ join_bytes = concat (map (\<lambda>l. l @ crlf) ls) \<and> list_all (\<lambda>l. newline_char \<notin> set l) ls"
  using no_line_injection [OF sample_construct(1) session_reachable, THEN conjunct1, THEN spec, of 4] by simp

text \<open>C20: Input is handled as it comes and never piles up: in every reachable state at most
  \<open>MAX_PENDING_INPUT\<close> bytes of a client wait, and a complete line is among them only if the
  client is being disconnected.\<close>

theorem input_handled:
  assumes "socket_ok sy" "program_state sy port password p" "findClient (p_server p) fd = Some c"
  shows "length (c_inputBuffer c) \<le> MAX_PENDING_INPUT
    \<and> (newline_char \<notin> set (c_inputBuffer c) \<or> c_disconnectRequested c)"
  using program_orderly [OF assms(1,2)] assms(3) unfolding orderly_def input_ok_but_def settled_def by blast

theorem input_handled_witness:
  "newline_char \<notin> set (c_inputBuffer (session_client ''Al'' ''u'' True True [] (greeting_bytes @ join_bytes)))"
  using input_handled [OF sample_construct(1) session_reachable, of 4] by simp

section \<open>Properties of the connections\<close>

text \<open>C3: Removing a client leaves no trace of it that a later connection could inherit: not the
  descriptor in the client table, the poll list, the open descriptors, the nickname index or any
  channel's members or operators, and not its nickname in any channel's invitations.\<close>

theorem remove_leaves_no_trace:
  assumes inv: "server_inv s" and i: "i < length (s_pollFds s)" "pf_fd (s_pollFds s ! i) \<noteq> s_listenerFd s"
    and c: "findClient s (pf_fd (s_pollFds s ! i)) = Some c" and t: "t = removeClient s i"
  shows "findClient t (pf_fd (s_pollFds s ! i)) = None
    \<and> pf_fd (s_pollFds s ! i) \<notin> set (map pf_fd (s_pollFds t))
    \<and> pf_fd (s_pollFds s ! i) \<notin> set (s_openFds t)
    \<and> (\<forall>n. om_find (s_nicknameIndex t) n \<noteq> Some (pf_fd (s_pollFds s ! i)))
    \<and> (\<forall>k ch. om_find (s_channels t) k = Some ch \<longrightarrow>
         \<not> hasMember ch (pf_fd (s_pollFds s ! i)) \<and> \<not> IsMemberOperator ch (pf_fd (s_pollFds s ! i))
         \<and> (c_nickname c \<noteq> [] \<longrightarrow> \<not> isInvited ch (c_nickname c)))"
proof -
  let ?fd = "pf_fd (s_pollFds s ! i)"
  have invt: "server_inv t"
    unfolding t by (rule removeClient_inv [OF inv i])
  have none: "findClient t ?fd = None"
    using findClient_removeClient [OF inv c, of ?fd] by (simp add: t)
  have gone: "?fd \<notin> set (om_keys (s_clients t))" "s_listenerFd t = s_listenerFd s"
    using none removeClient_poll(2) [OF inv i] by (simp_all add: findClient_def om_find_None_iff t)
  then have tables: "?fd \<notin> set (map pf_fd (s_pollFds t))" "?fd \<notin> set (s_openFds t)"
    using invt i(2) unfolding server_inv_def poll_ok_def fds_ok_def by auto
  have index: "om_find (s_nicknameIndex t) n \<noteq> Some ?fd" for n
    using invt none unfolding server_inv_def index_ok_def by (metis option.distinct(1))
  have "\<not> hasMember ch ?fd \<and> \<not> IsMemberOperator ch ?fd \<and> (c_nickname c \<noteq> [] \<longrightarrow> \<not> isInvited ch (c_nickname c))"
    if ch: "om_find (s_channels t) k = Some ch" for k ch
  proof -
    have chi: "channel_inv t k ch"
      using invt ch by (simp add: server_inv_def channels_ok_def)
    have free: "c_nickname c \<noteq> [] \<Longrightarrow> om_find (s_nicknameIndex t) (ircCaseFold (c_nickname c)) = None"
      by (simp add: t removeClient_eq [OF inv c])
    show ?thesis
      using chi none op_hasMember [of ch ?fd] free unfolding channel_inv_def isInvited_def by fastforce
  qed
  with none tables index show ?thesis
    by blast
qed

theorem remove_leaves_no_trace_witness:
  "findClient (removeClient sample_server 1) 4 = None \<and> 4 \<notin> set (s_openFds (removeClient sample_server 1))"
proof -
  have "1 < length (s_pollFds sample_server)" "pf_fd (s_pollFds sample_server ! 1) = 4" "s_listenerFd sample_server = 3"
    by (simp_all add: sample_server_def sample_poll_def)
  then show ?thesis
    using remove_leaves_no_trace [OF sample_inv, of 1 "sample_client ''Alice'' 4"] by (simp add: sample_find)
qed

text \<open>C28: Accepting is all or nothing: a failed \<open>accept\<close> or a failed \<open>fcntl\<close> leaves the
  server exactly as it was, in particular with the new descriptor closed, and a success adds one
  fresh unregistered client, one poll entry and one open descriptor.\<close>

theorem accept_all_or_nothing:
  assumes "server_inv s" "accept_ok s r"
  shows "acceptClient r nonblock_ok s =
    (if r = -1 then (None, s)
     else if \<not> nonblock_ok then (Some ''fcntl() failed'', s)
     else (None, s\<lparr>s_clients := om_put r (new_client r) (s_clients s),
                    s_pollFds := s_pollFds s @ [\<lparr>pf_fd = r, pf_events = POLLIN, pf_revents = 0\<rparr>],
                    s_openFds := r # s_openFds s\<rparr>))"
  using acceptClient_eq [OF assms, of nonblock_ok] by (simp add: accepted_def)

theorem accept_all_or_nothing_witness:
  "acceptClient 9 False sample_server = (Some ''fcntl() failed'', sample_server)"
proof -
  have "accept_ok sample_server 9"
    by (simp add: accept_ok_def sample_server_def)
  then show ?thesis
    using accept_all_or_nothing [OF sample_inv, of 9 False] by simp
qed

text \<open>C29: No command creates or destroys a client object, touches a descriptor or moves a poll entry:
  over every line the \<open>Client &\<close> that the read loop and the handlers hold stays valid, and
  unread input is not lost.\<close>

theorem handlers_keep_objects:
  "om_keys (s_clients (handleCompleteLine s fd line)) = om_keys (s_clients s)
    \<and> s_openFds (handleCompleteLine s fd line) = s_openFds s
    \<and> map pf_fd (s_pollFds (handleCompleteLine s fd line)) = map pf_fd (s_pollFds s)
    \<and> map_option c_inputBuffer (findClient (handleCompleteLine s fd line) g) = map_option c_inputBuffer (findClient s g)"
  using line_facts(3) [of s fd line] by (simp add: same_objects_def)

section \<open>Properties of the event loop\<close>

text \<open>C25: The loop over the poll list ends, although accepting appends to the list and removing shifts
  it: from its start, after at most one iteration per entry and two more, whatever the kernel
  answers, the program has left it, for the sweep or with an exception.\<close>

theorem scan_terminates:
  assumes "good (p_server p)" "p_at p = At_scan 0" "events_ok es p"
    and "length (s_pollFds (p_server p)) + 2 \<le> length (filter is_answer es)"
  shows "\<exists>n\<le>length es. scan_ended (run (take n es) p)"
  using scan_ends [OF assms(1-3)] scan_budget_start [OF assms(1)] assms(4) by simp

theorem scan_terminates_witness:
  "\<exists>n\<le>3. scan_ended (run (take n (replicate 3 (Answer (session_kernel 3 (-1)))))
    (process_at (listening_server 3 ''pw'') (At_scan 0)))"
proof -
  have "good (listening_server 3 ''pw'')"
    by (rule good_listening) simp
  moreover have "events_ok (replicate 3 (Answer (session_kernel 3 (-1)))) q" for q
    by (simp add: numeral_3_eq_3 session_kernel_def accept_ok_def)
  ultimately show ?thesis
    using scan_terminates [of "process_at (listening_server 3 ''pw'') (At_scan 0)" "replicate 3 (Answer (session_kernel 3 (-1)))"]
    by (simp add: listening_server_def)
qed

text \<open>C26: The sweep at the end of a round removes every client that has asked to leave, or was marked for
  removal, before it: none of them is left in the table, however the removals shift the list.\<close>

theorem sweep_removes_all:
  assumes "good s" "findClient s fd = Some c" "c_disconnectRequested c"
  shows "findClient (removeDisconnectedClients s) fd = None"
proof -
  have "fd \<in> set (om_keys (s_clients s))"
    using assms(2) by (metis findClient_def om_find_None_iff option.distinct(1))
  then have "fd \<noteq> s_listenerFd s" "fd \<in> set (drop 0 (map pf_fd (s_pollFds s)))"
    using assms(1) unfolding good_def server_inv_def poll_ok_def by auto
  then show ?thesis
    using sweep_removes [OF assms(1-3)] by (simp add: removeDisconnectedClients_def)
qed

lemma quit_sample: "good (handleQuit sample_server 5 (new_command ''QUIT'' []))"
  using sample_good quit.inv [of sample_server 5] quit.bounded [of sample_server 5] quit.complete [of sample_server 5]
  by (simp add: good_def sample_find)

theorem sweep_removes_all_witness:
  "findClient (removeDisconnectedClients (handleQuit sample_server 5 (new_command ''QUIT'' []))) 5 = None"
  by (rule sweep_removes_all [OF quit_sample, of 5 "requestDisconnect ''Client Quit'' (sample_client ''Bob'' 5)"])
    (simp_all add: handleQuit_def sample_find requestDisconnect_def)

text \<open>How far the program is from its end once a stop was requested.\<close>

fun stop_rank :: "program_point \<Rightarrow> nat" where
  "stop_rank Finished = 0"
| "stop_rank (Threw what) = 0"
| "stop_rank At_while = 1"
| "stop_rank At_sweep = 2"
| "stop_rank (At_scan i) = 3"
| "stop_rank At_poll = 4"

lemma stop_step:
  assumes "p_stopRequested p" "\<forall>what. p_at p \<noteq> Threw what"
  shows "p_stopRequested (run_step k p)" "\<forall>what. p_at (run_step k p) \<noteq> Threw what"
    "stop_rank (p_at (run_step k p)) \<le> stop_rank (p_at p) - 1"
  using assms by (cases "p_at p"; simp add: run_step_def Let_def)+

lemma stop_steps:
  "\<lbrakk>p_stopRequested p; \<forall>what. p_at p \<noteq> Threw what; stop_rank (p_at p) \<le> length ks\<rbrakk> \<Longrightarrow>
   p_at (run (map Answer ks) p) = Finished"
proof (induction ks arbitrary: p)
  case Nil
  then show ?case
    by (cases "p_at p") (simp_all add: run_def)
next
  case (Cons k ks)
  have "p_at (run (map Answer ks) (run_step k p)) = Finished"
    by (rule Cons.IH [OF stop_step(1,2) [OF Cons.prems(1,2)]])
      (use stop_step(3) [OF Cons.prems(1,2), of k] Cons.prems(3) in simp)
  then show ?case
    by (simp add: run_def)
qed

text \<open>C27: A stop request ends the program: once a signal has set the flag, wherever the program is, after
  at most four more answers of the kernel \<open>run\<close> has returned, and an interrupted \<open>poll\<close>
  does not become an error.\<close>

theorem stop_ends_run:
  assumes "\<forall>what. p_at p \<noteq> Threw what" "4 \<le> length ks"
  shows "p_at (run (Signal signum # map Answer ks) p) = Finished"
proof -
  have "stop_rank (p_at p) \<le> length ks"
    using assms(2) by (cases "p_at p") simp_all
  then show ?thesis
    using stop_steps [of "handleSignal signum p" ks] assms(1) by (simp add: run_def handleSignal_def)
qed

theorem stop_ends_run_witness:
  "p_at (run (Signal 2 # map Answer (replicate 4 (session_kernel 3 (-1)))) (process_at session_end (At_scan 2))) = Finished"
  by (rule stop_ends_run) simp_all

section \<open>Properties of the whole program\<close>

text \<open>C17: No descriptor is leaked: when \<open>main\<close> has ended, by a usage error, a failed start at any
  of its system calls, a stop request or an exception, every descriptor that the server opened is
  closed again.\<close>

theorem main_closes_everything:
  assumes "socket_ok sy"
    and "\<And>s port. construct_server sy port (argv ! 2) = (None, s) \<Longrightarrow> events_ok events (start_process s)"
    and "main_program sy events argv = (Some status, open_fds)"
  shows "open_fds = []"
proof (cases "length argv \<noteq> 3 \<or> checkPort (argv ! 1) = None \<or> argv ! 2 = []")
  case True
  then show ?thesis
    using assms(3) by (auto simp: main_program_def split: if_splits option.splits)
next
  case False
  then obtain port where port: "length argv = 3" "checkPort (argv ! 1) = Some port" "argv ! 2 \<noteq> []"
    by auto
  obtain what s where cs: "construct_server sy port (argv ! 2) = (what, s)"
    by fastforce
  show ?thesis
  proof (cases what)
    case None
    let ?p = "run events (start_process s)"
    have "good (p_server ?p)"
      using good_start [OF assms(1) cs [unfolded None]] reachable_run [OF assms(2) [OF cs [unfolded None]] reachable.start]
      by blast
    then have "s_openFds (destroy_server (p_server ?p)) = []"
      using destroy_closes by (simp add: good_def)
    then show ?thesis
      using assms(3) port cs None by (auto simp: main_program_def Let_def split: program_point.splits)
  next
    case (Some w)
    then show ?thesis
      using construct_cases [OF cs] assms(3) port cs by (simp add: main_program_def empty_server_def)
  qed
qed

theorem main_closes_everything_witness:
  "main_program (sample_syscalls\<lparr>sy_listen := -1\<rparr>) [] [''./ircserv'', ''6667'', ''pw''] = (Some EXIT_FAILURE, [])"
proof -
  have c: "construct_server (sample_syscalls\<lparr>sy_listen := -1\<rparr>) port pw = (Some ''listen() failed'', empty_server pw)" for port pw
    by (simp add: construct_server_def installSignalHandlers_def createListeningSocket_def sample_syscalls_def
        close_fd_def empty_server_def)
  have "checkPort ''6667'' = Some 6667"
    by (simp add: checkPort_def extract_unsigned_def extract_char_def is_space_def is_digit_def
        digits_value_def char_le_of_char)
  then obtain fds where m: "main_program (sample_syscalls\<lparr>sy_listen := -1\<rparr>) [] [''./ircserv'', ''6667'', ''pw''] = (Some EXIT_FAILURE, fds)"
    by (simp add: main_program_def c)
  have "fds = []"
    by (rule main_closes_everything [OF _ _ m]) (simp_all add: c socket_ok_def sample_syscalls_def)
  with m show ?thesis by simp
qed

text \<open>A session from the start of the program: a client that connects and sends the password, a
  nickname, a user name and a JOIN, all in one read and with both kinds of line end, is greeted and
  has its channel, and the bytes queued for it are exactly these replies.\<close>

lemma session_transcript:
  "(\<exists>c. findClient (p_server (run session_events (start_process (listening_server 3 ''pw'')))) 4 = Some c
     \<and> c_registered c \<and> c_inputBuffer c = []
     \<and> c_outputBuffer c =
         '':ircserv 001 Al :Welcome to this really awesome IRC server !Al!u@localhost'' @ crlf
         @ '':ircserv 376 Al :End of MOTD command'' @ crlf
         @ '':Al!u@localhost JOIN :#R'' @ crlf
         @ '':ircserv 331 Al #R :No topic is set'' @ crlf
         @ '':ircserv 353 Al = #R :@Al'' @ crlf
         @ '':ircserv 366 Al #R :End of /NAMES list'' @ crlf)
   \<and> findChannel (p_server (run session_events (start_process (listening_server 3 ''pw'')))) ''#R'' = Some session_channel"
  by (simp add: session_run session_end_def findChannel_def greeting_bytes_def join_bytes_def)
    (simp add: session_client_def)

end
